theory Spec2Isabelle
  imports Main "HOL-Library.Word"
begin

unbundle bit_operations_syntax

section \<open>QNEthernet: the datagram channel and the raw frame channel\<close>

text \<open>
  A shallow embedding of \<^verbatim>\<open>QNEthernetUDP.cpp\<close> and \<^verbatim>\<open>QNEthernetFrame.cpp\<close>.
  Each member function becomes a function from the object's fields (a record) to a
  result and the updated fields. What the network stack answers (\<^verbatim>\<open>udp_new\<close>,
  \<^verbatim>\<open>udp_bind\<close>, \<^verbatim>\<open>pbuf_alloc\<close>, \<^verbatim>\<open>udp_sendto\<close>, \<^verbatim>\<open>dns_gethostbyname\<close>,
  \<^verbatim>\<open>enet_output_frame\<close>) is a parameter of the function that calls it; what the
  code hands to the stack's transmit primitives is appended to a trace kept beside the
  fields.

  A \<^verbatim>\<open>std::vector<unsigned char>\<close> is a list of bytes. Its capacity
  (\<^verbatim>\<open>reserve\<close>) has no effect on its contents and is left out. The \<^verbatim>\<open>int\<close>
  cursor and the \<^verbatim>\<open>int\<close> results are HOL integers: a staged packet comes from a
  buffer chain whose total length is a 16-bit field, far below the range of \<^verbatim>\<open>int\<close>.
\<close>

subsection \<open>Types of the stack\<close>

type_synonym byte = "8 word"
type_synonym ip4 = "32 word"
type_synonym port = "16 word"
type_synonym pcb = nat

datatype err_t = ERR_OK | ERR_MEM | ERR_USE | ERR_INPROGRESS | ERR_VAL | ERR_ARG | ERR_RTE

text \<open>
  One \<^verbatim>\<open>struct pbuf\<close>: the memory at \<^verbatim>\<open>payload\<close>, the 16-bit \<^verbatim>\<open>len\<close> and the
  \<^verbatim>\<open>next\<close> pointer (\<open>pnext\<close>; a null pointer is \<open>None\<close>). \<^verbatim>\<open>tot_len\<close> is only read as a
  \<^verbatim>\<open>reserve\<close> hint and is left out.
\<close>

datatype pbuf = Pbuf (payload: "byte list") (len: "16 word") (pnext: "pbuf option")

definition INADDR_NONE :: ip4 where
  "INADDR_NONE = 0xFFFFFFFF"

definition UINT16_MAX :: nat where
  "UINT16_MAX = 65535"

text \<open>
  The copy loop of both receive callbacks:
  \<^verbatim>\<open>while (p != nullptr) { v.insert(v.end(), &data[0], &data[p->len]); p = p->next; }\<close>
\<close>

fun copy_chain :: "pbuf option \<Rightarrow> byte list \<Rightarrow> byte list" where
  "copy_chain None v = v"
| "copy_chain (Some (Pbuf data l nx)) v = copy_chain nx (v @ take (unat l) data)"

text \<open>
  \<^verbatim>\<open>v[i]\<close> on a vector with an \<^verbatim>\<open>int\<close> index: outside the vector the behaviour is
  undefined, which is \<open>None\<close> here.
\<close>

definition vec_at :: "byte list \<Rightarrow> int \<Rightarrow> byte option" where
  "vec_at v i = (if 0 \<le> i \<and> nat i < length v then Some (v ! nat i) else None)"

subsection \<open>EthernetUDP\<close>

text \<open>
  The fields in the order of the constructor's initialiser list (a field \<^verbatim>\<open>name_\<close> of
  the class is \<open>name\<close> here), then the three lookup
  fields that \<^verbatim>\<open>dnsFoundFunc\<close> and \<^verbatim>\<open>beginPacket(host, port)\<close> use, then the trace
  of \<^verbatim>\<open>udp_sendto\<close> calls: the control block, the pbuf argument (its bytes,
  \<open>None\<close> for a null pointer), the destination address and the destination port of
  each call.
\<close>

record EthernetUDP =
  pcb :: "pcb option"
  inPacket :: "byte list"
  packet :: "byte list"
  packetPos :: int
  inAddr :: ip4
  inPort :: port
  hasOutPacket :: bool
  outIpaddr :: ip4
  outPort :: port
  outPacket :: "byte list"
  lookupHost :: string
  lookupIP :: ip4
  lookupFound :: bool
  udp_sendto_calls :: "(pcb option \<times> byte list option \<times> ip4 \<times> port) list"

definition EthernetUDP_new :: EthernetUDP where
  "EthernetUDP_new =
     \<lparr> pcb = None, inPacket = [], packet = [], packetPos = -1,
       inAddr = INADDR_NONE, inPort = 0, hasOutPacket = False,
       outIpaddr = 0, outPort = 0, outPacket = [],
       lookupHost = [], lookupIP = INADDR_NONE, lookupFound = False,
       udp_sendto_calls = [] \<rparr>"

definition stop :: "EthernetUDP \<Rightarrow> EthernetUDP" where
  "stop u = (case pcb u of None \<Rightarrow> u | Some _ \<Rightarrow> u\<lparr>pcb := None\<rparr>)"

text \<open>
  The callbacks get the object through a \<^verbatim>\<open>void *\<close> argument: \<open>None\<close> is the null
  pointer, and then there is no object to return. \<^verbatim>\<open>lookupHost_ == name\<close> compares
  the pending host name with the callback's by their characters. \<^verbatim>\<open>recvFunc\<close> reads
  \<^verbatim>\<open>addr->addr\<close> unchecked; the stack passes the sender's address with every pbuf,
  so \<open>addr\<close> is the address itself.
\<close>

definition dnsFoundFunc :: "string \<Rightarrow> ip4 option \<Rightarrow> EthernetUDP option \<Rightarrow> EthernetUDP option" where
  "dnsFoundFunc name ipaddr callback_arg =
     (case callback_arg of
        None \<Rightarrow> None
      | Some udp \<Rightarrow>
          (case ipaddr of
             None \<Rightarrow> Some udp
           | Some a \<Rightarrow>
               if lookupHost udp = name
               then Some (udp\<lparr>lookupIP := a, lookupFound := True\<rparr>)
               else Some udp))"

definition recvFunc ::
  "EthernetUDP option \<Rightarrow> pcb option \<Rightarrow> pbuf option \<Rightarrow> ip4 \<Rightarrow> port \<Rightarrow> EthernetUDP option" where
  "recvFunc arg pcb_arg p addr prt =
     (case arg of
        None \<Rightarrow> None
      | Some udp \<Rightarrow>
          (case pcb_arg of
             None \<Rightarrow> Some udp
           | Some _ \<Rightarrow>
               (case p of
                  None \<Rightarrow> Some (stop udp)
                | Some _ \<Rightarrow>
                    Some (udp\<lparr>inPacket := copy_chain p [], inAddr := addr, inPort := prt\<rparr>))))"

text \<open>
  \<^verbatim>\<open>begin\<close> and \<^verbatim>\<open>beginMulticast\<close>. \<open>new\<close> is what \<^verbatim>\<open>udp_new()\<close> returns if it
  is called, \<open>bound\<close> what \<^verbatim>\<open>udp_bind\<close> returns if it is called.
\<close>

definition begin_udp :: "pcb option \<Rightarrow> err_t \<Rightarrow> port \<Rightarrow> EthernetUDP \<Rightarrow> bool \<times> EthernetUDP" where
  "begin_udp new bound localPort u =
     (let u1 = (if pcb u = None then u\<lparr>pcb := new\<rparr> else u)
      in if pcb u1 = None then (False, u1)
         else if bound \<noteq> ERR_OK then (False, u1)
         else (True, u1))"

definition beginMulticast ::
  "pcb option \<Rightarrow> err_t \<Rightarrow> ip4 \<Rightarrow> port \<Rightarrow> EthernetUDP \<Rightarrow> bool \<times> EthernetUDP" where
  "beginMulticast new bound ip localPort u =
     (let u1 = (if pcb u = None then u\<lparr>pcb := new\<rparr> else u)
      in if pcb u1 = None then (False, u1)
         else if ip AND 0xF0000000 \<noteq> 0xE0000000 then (False, u1)
         else if bound \<noteq> ERR_OK then (False, u1)
         else (True, u1))"

subsubsection \<open>Reception\<close>

definition parsePacket :: "EthernetUDP \<Rightarrow> int \<times> EthernetUDP" where
  "parsePacket u =
     (if pcb u = None then (0, u)
      else
        let u1 = u\<lparr>packet := inPacket u, inPacket := []\<rparr>
        in if length (packet u1) > 0
           then (int (length (packet u1)), u1\<lparr>packetPos := 0\<rparr>)
           else (0, u1\<lparr>packetPos := -1\<rparr>))"

definition isAvailable :: "EthernetUDP \<Rightarrow> bool" where
  "isAvailable u = (0 \<le> packetPos u \<and> nat (packetPos u) < length (packet u))"

definition available :: "EthernetUDP \<Rightarrow> int" where
  "available u =
     (if \<not> isAvailable u then 0 else int (length (packet u)) - packetPos u)"

text \<open>\<^verbatim>\<open>read()\<close> and \<^verbatim>\<open>peek()\<close>: \<open>None\<close> when the vector is indexed out of range.\<close>

definition read :: "EthernetUDP \<Rightarrow> (int \<times> EthernetUDP) option" where
  "read u =
     (if \<not> isAvailable u then Some (-1, u)
      else
        (case vec_at (packet u) (packetPos u) of
           None \<Rightarrow> None
         | Some b \<Rightarrow> Some (uint b, u\<lparr>packetPos := packetPos u + 1\<rparr>)))"

text \<open>
  \<^verbatim>\<open>read(buffer, len)\<close>: the count, the bytes copied to \<^verbatim>\<open>buffer\<close>, the object.
\<close>

definition read_buf :: "nat \<Rightarrow> EthernetUDP \<Rightarrow> int \<times> byte list \<times> EthernetUDP" where
  "read_buf n u =
     (if n = 0 \<or> \<not> isAvailable u then (0, [], u)
      else
        let n1 = min n (length (packet u) - nat (packetPos u))
        in (int n1, take n1 (drop (nat (packetPos u)) (packet u)),
            u\<lparr>packetPos := packetPos u + int n1\<rparr>))"

definition peek :: "EthernetUDP \<Rightarrow> (int \<times> EthernetUDP) option" where
  "peek u =
     (if \<not> isAvailable u then Some (-1, u)
      else
        (case vec_at (packet u) (packetPos u) of
           None \<Rightarrow> None
         | Some b \<Rightarrow> Some (uint b, u)))"

definition flush_udp :: "EthernetUDP \<Rightarrow> EthernetUDP" where
  "flush_udp u = u\<lparr>packetPos := -1\<rparr>"

definition remoteIP :: "EthernetUDP \<Rightarrow> ip4" where
  "remoteIP u = inAddr u"

definition remotePort :: "EthernetUDP \<Rightarrow> port" where
  "remotePort u = inPort u"

subsubsection \<open>Transmission\<close>

text \<open>
  \<^verbatim>\<open>beginPacket(ip, port)\<close>; the \<^verbatim>\<open>int\<close> result is \<^verbatim>\<open>true\<close> or \<^verbatim>\<open>false\<close>.
  The body assigns \<^verbatim>\<open>outIpaddr_\<close>, \<^verbatim>\<open>hasOutPacket_\<close> and clears \<^verbatim>\<open>outPacket_\<close>;
  it has no assignment to \<^verbatim>\<open>outPort_\<close>.
\<close>

definition beginPacket :: "pcb option \<Rightarrow> ip4 \<Rightarrow> port \<Rightarrow> EthernetUDP \<Rightarrow> bool \<times> EthernetUDP" where
  "beginPacket new ip prt u =
     (let u1 = (if pcb u = None then u\<lparr>pcb := new\<rparr> else u)
      in if pcb u1 = None then (False, u1)
         else (True, u1\<lparr>outIpaddr := ip, hasOutPacket := True, outPacket := []\<rparr>))"

text \<open>
  The wait loop of \<^verbatim>\<open>beginPacket(host, port)\<close> runs on a scripted clock. One entry
  of the script is one call of \<^verbatim>\<open>delay\<close>: how many milliseconds it took beyond the
  ones asked for, and the \<^verbatim>\<open>dnsFoundFunc\<close> call (name and address, \<open>None\<close> for a
  null address) that the stack made during it, if any. After the script's end a
  \<^verbatim>\<open>delay\<close> takes exactly the time asked for and no callback runs. A receive
  callback is an event of its own (\<open>RecvFunc\<close> below), not part of the script.
\<close>

type_synonym tick = "nat \<times> (string \<times> ip4 option) option"

definition delay :: "nat \<Rightarrow> tick list \<Rightarrow> nat \<times> EthernetUDP \<Rightarrow> nat \<times> EthernetUDP" where
  "delay ms script tu =
     (case tu of (timer, u) \<Rightarrow>
        (case script of
           [] \<Rightarrow> (timer + ms, u)
         | (extra, cb) # _ \<Rightarrow>
             (timer + ms + extra,
              case cb of
                None \<Rightarrow> u
              | Some (name, ipaddr) \<Rightarrow>
                  (case dnsFoundFunc name ipaddr (Some u) of None \<Rightarrow> u | Some u1 \<Rightarrow> u1))))"

text \<open>
  \<^verbatim>\<open>do { delay(10); } while (lookupIP_ == INADDR_NONE && timer < 2000);\<close>
  The result is the number of \<^verbatim>\<open>delay\<close> calls made, the value of \<^verbatim>\<open>timer\<close> at the
  exit and the object.
\<close>

function dns_wait :: "tick list \<Rightarrow> nat \<Rightarrow> nat \<Rightarrow> EthernetUDP \<Rightarrow> nat \<times> nat \<times> EthernetUDP" where
  "dns_wait script sleeps timer u =
     (case delay 10 script (timer, u) of (timer1, u1) \<Rightarrow>
        if lookupIP u1 = INADDR_NONE \<and> timer1 < 2000
        then dns_wait (tl script) (sleeps + 1) timer1 u1
        else (sleeps + 1, timer1, u1))"
  by pat_completeness auto
termination
  by (relation "measure (\<lambda>(script, sleeps, timer, u). 2000 - timer)")
     (auto simp: delay_def split: list.splits prod.splits)

declare dns_wait.simps [simp del]

text \<open>
  \<^verbatim>\<open>beginPacket(host, port)\<close>. \<open>dns\<close> is what \<^verbatim>\<open>dns_gethostbyname\<close> returns and
  \<open>addr\<close> what it stores in \<^verbatim>\<open>addr\<close>. The result is the return value, the number of
  \<^verbatim>\<open>delay\<close> calls with the time they took in all, and the object.
\<close>

definition beginPacket_host ::
  "err_t \<Rightarrow> ip4 \<Rightarrow> tick list \<Rightarrow> pcb option \<Rightarrow> string \<Rightarrow> port \<Rightarrow> EthernetUDP
     \<Rightarrow> bool \<times> (nat \<times> nat) \<times> EthernetUDP" where
  "beginPacket_host dns addr script new host prt u =
     (let u0 = u\<lparr>lookupHost := host, lookupIP := INADDR_NONE, lookupFound := False\<rparr>
      in case dns of
           ERR_OK \<Rightarrow>
             (case beginPacket new addr prt u0 of (r, u1) \<Rightarrow> (r, (0, 0), u1))
         | ERR_INPROGRESS \<Rightarrow>
             (case dns_wait script 0 0 u0 of (sleeps, timer, u1) \<Rightarrow>
                if lookupFound u1
                then (case beginPacket new (lookupIP u1) prt u1 of
                        (r, u2) \<Rightarrow> (r, (sleeps, timer), u2))
                else (False, (sleeps, timer), u1))
         | _ \<Rightarrow> (False, (0, 0), u0))"

text \<open>
  \<^verbatim>\<open>endPacket()\<close>. \<open>alloc_ok\<close> says whether \<^verbatim>\<open>pbuf_alloc\<close> returned a pbuf,
  \<open>sent\<close> is what \<^verbatim>\<open>udp_sendto\<close> returns. The pbuf \<^verbatim>\<open>p\<close> that \<^verbatim>\<open>pbuf_take\<close>
  fills from \<^verbatim>\<open>outPacket_\<close> is freed after the call; the call itself is
  \<^verbatim>\<open>udp_sendto(pcb_, nullptr, &outIpaddr_, outPort_)\<close>.
\<close>

definition endPacket :: "bool \<Rightarrow> err_t \<Rightarrow> EthernetUDP \<Rightarrow> bool \<times> EthernetUDP" where
  "endPacket alloc_ok sent u =
     (if \<not> hasOutPacket u then (False, u)
      else
        let u1 = u\<lparr>hasOutPacket := False\<rparr>
        in if \<not> alloc_ok then (False, u1)
           else
             (sent = ERR_OK,
              u1\<lparr>outPacket := [],
                 udp_sendto_calls := udp_sendto_calls u1 @ [(pcb u1, None, outIpaddr u1, outPort u1)]\<rparr>))"

definition write_udp :: "byte \<Rightarrow> EthernetUDP \<Rightarrow> nat \<times> EthernetUDP" where
  "write_udp b u =
     (if \<not> hasOutPacket u then (0, u)
      else (1, u\<lparr>outPacket := outPacket u @ [b]\<rparr>))"

text \<open>
  \<^verbatim>\<open>write(buffer, size)\<close>: \<open>buffer\<close> is the memory the pointer addresses, of which the
  call reads the first \<^verbatim>\<open>size\<close> (here \<open>sz\<close>) bytes after the cap.
\<close>

definition write_buf_udp :: "byte list \<Rightarrow> nat \<Rightarrow> EthernetUDP \<Rightarrow> nat \<times> EthernetUDP" where
  "write_buf_udp buffer sz u =
     (if \<not> hasOutPacket u \<or> sz = 0 then (0, u)
      else
        let sz1 = (if sz > UINT16_MAX then UINT16_MAX else sz)
        in (sz1, u\<lparr>outPacket := outPacket u @ take sz1 buffer\<rparr>))"

subsubsection \<open>Sequences of calls\<close>

text \<open>
  The member functions and the two callbacks as events, each with what the stack answers
  during it. A step is \<open>None\<close> when the call indexes a vector out of range.
\<close>

datatype udp_event =
    Begin "pcb option" err_t port
  | BeginMulticast "pcb option" err_t ip4 port
  | Stop
  | ParsePacket
  | Available
  | Read
  | ReadBuf nat
  | Peek
  | Flush
  | RemoteIP
  | RemotePort
  | BeginPacket "pcb option" ip4 port
  | BeginPacketHost err_t ip4 "tick list" "pcb option" string port
  | EndPacket bool err_t
  | Write byte
  | WriteBuf "byte list" nat
  | RecvFunc "pcb option" "pbuf option" ip4 port
  | DnsFoundFunc string "ip4 option"

fun udp_step :: "udp_event \<Rightarrow> EthernetUDP \<Rightarrow> EthernetUDP option" where
  "udp_step (Begin new bound lp) u = Some (snd (begin_udp new bound lp u))"
| "udp_step (BeginMulticast new bound ip lp) u = Some (snd (beginMulticast new bound ip lp u))"
| "udp_step Stop u = Some (stop u)"
| "udp_step ParsePacket u = Some (snd (parsePacket u))"
| "udp_step Available u = Some u"
| "udp_step Read u = map_option snd (read u)"
| "udp_step (ReadBuf n) u = Some (snd (snd (read_buf n u)))"
| "udp_step Peek u = map_option snd (peek u)"
| "udp_step Flush u = Some (flush_udp u)"
| "udp_step RemoteIP u = Some u"
| "udp_step RemotePort u = Some u"
| "udp_step (BeginPacket new ip prt) u = Some (snd (beginPacket new ip prt u))"
| "udp_step (BeginPacketHost dns addr script new host prt) u =
     Some (snd (snd (beginPacket_host dns addr script new host prt u)))"
| "udp_step (EndPacket alloc_ok sent) u = Some (snd (endPacket alloc_ok sent u))"
| "udp_step (Write b) u = Some (snd (write_udp b u))"
| "udp_step (WriteBuf buffer sz) u = Some (snd (write_buf_udp buffer sz u))"
| "udp_step (RecvFunc pcb_arg p addr prt) u = recvFunc (Some u) pcb_arg p addr prt"
| "udp_step (DnsFoundFunc name ipaddr) u = dnsFoundFunc name ipaddr (Some u)"

fun udp_run :: "udp_event list \<Rightarrow> EthernetUDP \<Rightarrow> EthernetUDP option" where
  "udp_run [] u = Some u"
| "udp_run (e # es) u = (case udp_step e u of None \<Rightarrow> None | Some u1 \<Rightarrow> udp_run es u1)"

subsection \<open>EthernetFrameClass\<close>

text \<open>
  The singleton's fields, and the trace of \<^verbatim>\<open>enet_output_frame\<close> calls: the
  \<^verbatim>\<open>len\<close> bytes at \<^verbatim>\<open>frame\<close> of each call.
\<close>

record EthernetFrame =
  inFrame :: "byte list"
  frame :: "byte list"
  framePos :: int
  hasOutFrame :: bool
  outFrame :: "byte list"
  enet_output_frame_calls :: "byte list list"

text \<open>
  Modelled from the spec: the constructor of \<^verbatim>\<open>EthernetFrameClass\<close> is in
  \<^verbatim>\<open>QNEthernetFrame.h\<close>, which is not among the sources. The spec gives the frame
  channel the structure of the datagram channel: no staged frame, no active frame (the
  cursor is the none-sentinel -1) and outbound staging closed.
\<close>

definition EthernetFrame_new :: EthernetFrame where
  "EthernetFrame_new =
     \<lparr> inFrame = [], frame = [], framePos = -1, hasOutFrame = False, outFrame = [],
       enet_output_frame_calls = [] \<rparr>"

definition ETHTYPE_VLAN :: "16 word" where
  "ETHTYPE_VLAN = 0x8100"

text \<open>
  \<^verbatim>\<open>recvFunc(p, netif)\<close> reads \<^verbatim>\<open>p->tot_len\<close> before the loop: the stack never
  passes a null \<^verbatim>\<open>p\<close>, so \<open>p\<close> is a pbuf here.
\<close>

definition recvFunc_frame :: "pbuf \<Rightarrow> EthernetFrame \<Rightarrow> err_t \<times> EthernetFrame" where
  "recvFunc_frame p f = (ERR_OK, f\<lparr>inFrame := copy_chain (Some p) []\<rparr>)"

text \<open>
  Modelled from the spec: \<^verbatim>\<open>EthernetClass::loop()\<close> is in \<^verbatim>\<open>QNEthernet.cpp\<close>, which
  is not among the sources. It services the stack, which hands every frame it does not
  consume itself to \<^verbatim>\<open>recvFunc\<close>; \<open>arrivals\<close> are those frames, in order.
\<close>

fun EthernetClass_loop :: "pbuf list \<Rightarrow> EthernetFrame \<Rightarrow> EthernetFrame" where
  "EthernetClass_loop [] f = f"
| "EthernetClass_loop (p # ps) f = EthernetClass_loop ps (snd (recvFunc_frame p f))"

subsubsection \<open>Reception\<close>

definition parseFrame :: "pbuf list \<Rightarrow> EthernetFrame \<Rightarrow> int \<times> EthernetFrame" where
  "parseFrame arrivals f =
     (let f1 = f\<lparr>frame := inFrame f, inFrame := []\<rparr>;
          f2 = EthernetClass_loop arrivals f1
      in if length (frame f2) > 0
         then (int (length (frame f2)), f2\<lparr>framePos := 0\<rparr>)
         else (0, f2\<lparr>framePos := -1\<rparr>))"

definition isAvailable_frame :: "EthernetFrame \<Rightarrow> bool" where
  "isAvailable_frame f = (0 \<le> framePos f \<and> nat (framePos f) < length (frame f))"

definition available_frame :: "EthernetFrame \<Rightarrow> int" where
  "available_frame f =
     (if \<not> isAvailable_frame f then 0 else int (length (frame f)) - framePos f)"

definition read_frame :: "EthernetFrame \<Rightarrow> (int \<times> EthernetFrame) option" where
  "read_frame f =
     (if \<not> isAvailable_frame f then Some (-1, f)
      else
        (case vec_at (frame f) (framePos f) of
           None \<Rightarrow> None
         | Some b \<Rightarrow> Some (uint b, f\<lparr>framePos := framePos f + 1\<rparr>)))"

definition read_buf_frame :: "nat \<Rightarrow> EthernetFrame \<Rightarrow> int \<times> byte list \<times> EthernetFrame" where
  "read_buf_frame n f =
     (if n = 0 \<or> \<not> isAvailable_frame f then (0, [], f)
      else
        let n1 = min n (length (frame f) - nat (framePos f))
        in (int n1, take n1 (drop (nat (framePos f)) (frame f)),
            f\<lparr>framePos := framePos f + int n1\<rparr>))"

definition peek_frame :: "EthernetFrame \<Rightarrow> (int \<times> EthernetFrame) option" where
  "peek_frame f =
     (if \<not> isAvailable_frame f then Some (-1, f)
      else
        (case vec_at (frame f) (framePos f) of
           None \<Rightarrow> None
         | Some b \<Rightarrow> Some (uint b, f)))"

subsubsection \<open>Transmission\<close>

definition write_frame :: "byte \<Rightarrow> EthernetFrame \<Rightarrow> nat \<times> EthernetFrame" where
  "write_frame b f =
     (if \<not> hasOutFrame f then (0, f)
      else (1, f\<lparr>outFrame := outFrame f @ [b]\<rparr>))"

definition write_buf_frame :: "byte list \<Rightarrow> nat \<Rightarrow> EthernetFrame \<Rightarrow> nat \<times> EthernetFrame" where
  "write_buf_frame buffer sz f =
     (if \<not> hasOutFrame f \<or> sz = 0 then (0, f)
      else
        let sz1 = (if sz > UINT16_MAX then UINT16_MAX else sz)
        in (sz1, f\<lparr>outFrame := outFrame f @ take sz1 buffer\<rparr>))"

definition beginFrame :: "EthernetFrame \<Rightarrow> EthernetFrame" where
  "beginFrame f = f\<lparr>hasOutFrame := True, outFrame := []\<rparr>"

definition beginFrame_hdr ::
  "byte list \<Rightarrow> byte list \<Rightarrow> 16 word \<Rightarrow> EthernetFrame \<Rightarrow> EthernetFrame" where
  "beginFrame_hdr dstAddr srcAddr typeOrLength f =
     (let f1 = beginFrame f;
          f2 = snd (write_buf_frame dstAddr 6 f1);
          f3 = snd (write_buf_frame srcAddr 6 f2);
          f4 = snd (write_frame (ucast (drop_bit 8 typeOrLength)) f3)
      in snd (write_frame (ucast typeOrLength) f4))"

definition beginVLANFrame ::
  "byte list \<Rightarrow> byte list \<Rightarrow> 16 word \<Rightarrow> 16 word \<Rightarrow> EthernetFrame \<Rightarrow> EthernetFrame" where
  "beginVLANFrame dstAddr srcAddr vlanInfo typeOrLength f =
     (let f1 = beginFrame_hdr dstAddr srcAddr ETHTYPE_VLAN f;
          f2 = snd (write_frame (ucast (drop_bit 8 vlanInfo)) f1);
          f3 = snd (write_frame (ucast vlanInfo) f2);
          f4 = snd (write_frame (ucast (drop_bit 8 typeOrLength)) f3)
      in snd (write_frame (ucast typeOrLength) f4))"

text \<open>\<^verbatim>\<open>endFrame()\<close>; \<open>sent\<close> is what \<^verbatim>\<open>enet_output_frame\<close> returns.\<close>

definition endFrame :: "bool \<Rightarrow> EthernetFrame \<Rightarrow> bool \<times> EthernetFrame" where
  "endFrame sent f =
     (if \<not> hasOutFrame f then (False, f)
      else
        let f1 = f\<lparr>hasOutFrame := False\<rparr>
        in (sent,
            f1\<lparr>enet_output_frame_calls := enet_output_frame_calls f1 @ [outFrame f1],
               outFrame := []\<rparr>))"

definition send_frame :: "bool \<Rightarrow> byte list \<Rightarrow> nat \<Rightarrow> EthernetFrame \<Rightarrow> bool \<times> EthernetFrame" where
  "send_frame sent bytes n f =
     (sent, f\<lparr>enet_output_frame_calls := enet_output_frame_calls f @ [take n bytes]\<rparr>)"

subsubsection \<open>Sequences of calls\<close>

datatype frame_event =
    FRecvFunc pbuf
  | ParseFrame "pbuf list"
  | FAvailable
  | FRead
  | FReadBuf nat
  | FPeek
  | BeginFrame
  | BeginFrameHdr "byte list" "byte list" "16 word"
  | BeginVLANFrame "byte list" "byte list" "16 word" "16 word"
  | EndFrame bool
  | Send bool "byte list" nat
  | FWrite byte
  | FWriteBuf "byte list" nat

fun frame_step :: "frame_event \<Rightarrow> EthernetFrame \<Rightarrow> EthernetFrame option" where
  "frame_step (FRecvFunc p) f = Some (snd (recvFunc_frame p f))"
| "frame_step (ParseFrame arrivals) f = Some (snd (parseFrame arrivals f))"
| "frame_step FAvailable f = Some f"
| "frame_step FRead f = map_option snd (read_frame f)"
| "frame_step (FReadBuf n) f = Some (snd (snd (read_buf_frame n f)))"
| "frame_step FPeek f = map_option snd (peek_frame f)"
| "frame_step BeginFrame f = Some (beginFrame f)"
| "frame_step (BeginFrameHdr d s t) f = Some (beginFrame_hdr d s t f)"
| "frame_step (BeginVLANFrame d s v t) f = Some (beginVLANFrame d s v t f)"
| "frame_step (EndFrame sent) f = Some (snd (endFrame sent f))"
| "frame_step (Send sent bytes n) f = Some (snd (send_frame sent bytes n f))"
| "frame_step (FWrite b) f = Some (snd (write_frame b f))"
| "frame_step (FWriteBuf buffer sz) f = Some (snd (write_buf_frame buffer sz f))"

fun frame_run :: "frame_event list \<Rightarrow> EthernetFrame \<Rightarrow> EthernetFrame option" where
  "frame_run [] f = Some f"
| "frame_run (e # es) f = (case frame_step e f of None \<Rightarrow> None | Some f1 \<Rightarrow> frame_run es f1)"

subsection \<open>Example states\<close>

text \<open>
  A bound datagram channel whose active packet is the two bytes 1, 2 with the cursor at
  the first, and a frame channel whose active frame is the two bytes AA, BB with the
  cursor at the second.
\<close>

definition udp_two_bytes :: EthernetUDP where
  "udp_two_bytes = EthernetUDP_new\<lparr>pcb := Some 1, packet := [1, 2], packetPos := 0\<rparr>"

definition frame_two_bytes :: EthernetFrame where
  "frame_two_bytes = EthernetFrame_new\<lparr>frame := [170, 187], framePos := 1\<rparr>"

text \<open>Channels with outbound staging open and one byte staged.\<close>

definition udp_staging :: EthernetUDP where
  "udp_staging = EthernetUDP_new\<lparr>pcb := Some 1, hasOutPacket := True, outPacket := [9]\<rparr>"

definition frame_staging :: EthernetFrame where
  "frame_staging = EthernetFrame_new\<lparr>hasOutFrame := True, outFrame := [9]\<rparr>"

subsection \<open>Kinds of events\<close>

text \<open>
  The events that open outbound staging (the \<^verbatim>\<open>beginPacket\<close> and \<^verbatim>\<open>beginFrame\<close>
  overloads), and the direct \<^verbatim>\<open>send\<close> of a frame built by the caller.
\<close>

fun opens_staging :: "udp_event \<Rightarrow> bool" where
  "opens_staging (BeginPacket new ip prt) = True"
| "opens_staging (BeginPacketHost dns addr script new host prt) = True"
| "opens_staging e = False"

fun opens_frame :: "frame_event \<Rightarrow> bool" where
  "opens_frame BeginFrame = True"
| "opens_frame (BeginFrameHdr d s t) = True"
| "opens_frame (BeginVLANFrame d s v t) = True"
| "opens_frame e = False"

fun sends_direct :: "frame_event \<Rightarrow> bool" where
  "sends_direct (Send sent bytes n) = True"
| "sends_direct e = False"

subsection \<open>Predicates on states and runs\<close>

text \<open>
  A receive callback that stages a packet: neither its control block nor its pbuf is
  null.
\<close>

fun delivers :: "udp_event \<Rightarrow> bool" where
  "delivers (RecvFunc (Some c) (Some p) addr prt) = True"
| "delivers e = False"

text \<open>The cursor is the none-sentinel or lies between 0 and the length of the active packet.\<close>

definition udp_inv :: "EthernetUDP \<Rightarrow> bool" where
  "udp_inv u = (packetPos u = -1 \<or> (0 \<le> packetPos u \<and> packetPos u \<le> int (length (packet u))))"

definition frame_inv :: "EthernetFrame \<Rightarrow> bool" where
  "frame_inv f = (framePos f = -1 \<or> (0 \<le> framePos f \<and> framePos f \<le> int (length (frame f))))"




text \<open>
  The fields the receive callback writes, set to given values.
\<close>

definition set_inbound :: "byte list \<Rightarrow> ip4 \<Rightarrow> port \<Rightarrow> EthernetUDP \<Rightarrow> EthernetUDP" where
  "set_inbound x a q u = u\<lparr>inPacket := x, inAddr := a, inPort := q\<rparr>"

subsection \<open>The scripted clock\<close>

text \<open>
  A script entry whose callback publishes a result for the pending host name: its name
  is the pending one and its address is not null.
\<close>

fun accepts :: "string \<Rightarrow> tick \<Rightarrow> bool" where
  "accepts host (extra, Some (name, Some a)) = (name = host)"
| "accepts host tk = False"

text \<open>
  The milliseconds by which the first \<open>k\<close> calls of \<^verbatim>\<open>delay\<close> overran the time
  asked for.
\<close>

definition overrun :: "tick list \<Rightarrow> nat \<Rightarrow> nat" where
  "overrun script k = sum_list (map fst (take k script))"

text \<open>
  The timer and the object after the first \<open>k\<close> passes of the wait loop's body, each a
  \<^verbatim>\<open>delay(10)\<close> on the next entry of the script. This is the yardstick the loop is
  compared with, not a part of the source.
\<close>

fun after_delays :: "nat \<Rightarrow> tick list \<Rightarrow> nat \<times> EthernetUDP \<Rightarrow> nat \<times> EthernetUDP" where
  "after_delays 0 script tu = tu"
| "after_delays (Suc k) script tu = after_delays k (tl script) (delay 10 script tu)"

section \<open>Properties\<close>

subsection \<open>Indexing stays inside the active packet\<close>

lemma vec_at_available:
  "isAvailable u \<Longrightarrow> vec_at (packet u) (packetPos u) = Some (packet u ! nat (packetPos u))"
  by (simp add: isAvailable_def vec_at_def)

lemma vec_at_available_frame:
  "isAvailable_frame f \<Longrightarrow> vec_at (frame f) (framePos f) = Some (frame f ! nat (framePos f))"
  by (simp add: isAvailable_frame_def vec_at_def)

subsection \<open>peek and read\<close>

text \<open>
  C7. In every state of either channel in which data is available, \<^verbatim>\<open>peek()\<close> returns
  the byte at the cursor and leaves the object as it was, so a second \<^verbatim>\<open>peek()\<close>
  returns the same byte; a \<^verbatim>\<open>read()\<close> after the \<^verbatim>\<open>peek()\<close> returns that byte too and
  moves the cursor forward by exactly one.
\<close>

theorem peek_keeps_cursor:
  "(isAvailable u \<longrightarrow>
      (\<exists>b. 0 \<le> b \<and> peek u = Some (b, u)
         \<and> Option.bind (peek u) (\<lambda>(b1, u1). peek u1) = Some (b, u)
         \<and> Option.bind (peek u) (\<lambda>(b1, u1). read u1)
             = Some (b, u\<lparr>packetPos := packetPos u + 1\<rparr>)))
   \<and> (isAvailable_frame f \<longrightarrow>
      (\<exists>b. 0 \<le> b \<and> peek_frame f = Some (b, f)
         \<and> Option.bind (peek_frame f) (\<lambda>(b1, f1). peek_frame f1) = Some (b, f)
         \<and> Option.bind (peek_frame f) (\<lambda>(b1, f1). read_frame f1)
             = Some (b, f\<lparr>framePos := framePos f + 1\<rparr>)))"
  by (simp add: peek_def read_def peek_frame_def read_frame_def
        vec_at_available vec_at_available_frame)

theorem peek_keeps_cursor_witness:
  "isAvailable udp_two_bytes \<and> isAvailable_frame frame_two_bytes
   \<and> (\<exists>b. peek udp_two_bytes = Some (b, udp_two_bytes)
         \<and> Option.bind (peek udp_two_bytes) (\<lambda>(b1, u1). read u1)
             = Some (b, udp_two_bytes\<lparr>packetPos := packetPos udp_two_bytes + 1\<rparr>))
   \<and> (\<exists>b. peek_frame frame_two_bytes = Some (b, frame_two_bytes)
         \<and> Option.bind (peek_frame frame_two_bytes) (\<lambda>(b1, f1). read_frame f1)
             = Some (b, frame_two_bytes\<lparr>framePos := framePos frame_two_bytes + 1\<rparr>))"
proof -
  have a: "isAvailable udp_two_bytes"
    by (simp add: isAvailable_def udp_two_bytes_def EthernetUDP_new_def)
  have b: "isAvailable_frame frame_two_bytes"
    by (simp add: isAvailable_frame_def frame_two_bytes_def EthernetFrame_new_def)
  from peek_keeps_cursor [of udp_two_bytes frame_two_bytes] a b show ?thesis
    by blast
qed

subsection \<open>The cap of a buffer write\<close>

text \<open>
  C5. With staging open and a buffer that holds the \<^verbatim>\<open>size\<close> bytes the caller
  announces, \<^verbatim>\<open>write(buffer, size)\<close> on either channel appends the first 65535 bytes
  and returns 65535 when \<^verbatim>\<open>size\<close> is above 65535, and appends all \<^verbatim>\<open>size\<close> bytes
  and returns \<^verbatim>\<open>size\<close> otherwise. It reads no more bytes than the buffer holds, the
  staging buffer grows by exactly the count returned, and no other field changes.
\<close>

theorem write_buf_cap:
  "(hasOutPacket u \<and> sz \<le> length buffer \<longrightarrow>
      (let r = write_buf_udp buffer sz u
       in (sz > 65535 \<longrightarrow> fst r = 65535 \<and> outPacket (snd r) = outPacket u @ take 65535 buffer)
        \<and> (sz \<le> 65535 \<longrightarrow> fst r = sz \<and> outPacket (snd r) = outPacket u @ take sz buffer)
        \<and> length (outPacket (snd r)) = length (outPacket u) + fst r
        \<and> fst r \<le> length buffer
        \<and> snd r = u\<lparr>outPacket := outPacket (snd r)\<rparr>))
   \<and> (hasOutFrame f \<and> sz \<le> length buffer \<longrightarrow>
      (let r = write_buf_frame buffer sz f
       in (sz > 65535 \<longrightarrow> fst r = 65535 \<and> outFrame (snd r) = outFrame f @ take 65535 buffer)
        \<and> (sz \<le> 65535 \<longrightarrow> fst r = sz \<and> outFrame (snd r) = outFrame f @ take sz buffer)
        \<and> length (outFrame (snd r)) = length (outFrame f) + fst r
        \<and> fst r \<le> length buffer
        \<and> snd r = f\<lparr>outFrame := outFrame (snd r)\<rparr>))"
  by (simp add: write_buf_udp_def write_buf_frame_def UINT16_MAX_def Let_def)

theorem write_buf_cap_witness:
  "hasOutPacket udp_staging \<and> hasOutFrame frame_staging
   \<and> (70000::nat) \<le> length (replicate 70000 (7::byte)) \<and> (70000::nat) > 65535
   \<and> fst (write_buf_udp (replicate 70000 7) 70000 udp_staging) = 65535
   \<and> outPacket (snd (write_buf_udp (replicate 70000 7) 70000 udp_staging))
       = outPacket udp_staging @ take 65535 (replicate 70000 7)
   \<and> fst (write_buf_frame (replicate 70000 7) 70000 frame_staging) = 65535
   \<and> outFrame (snd (write_buf_frame (replicate 70000 7) 70000 frame_staging))
       = outFrame frame_staging @ take 65535 (replicate 70000 7)"
proof -
  have a: "hasOutPacket udp_staging"
    by (simp add: udp_staging_def EthernetUDP_new_def)
  have b: "hasOutFrame frame_staging"
    by (simp add: frame_staging_def EthernetFrame_new_def)
  have c: "(70000::nat) \<le> length (replicate 70000 (7::byte))"
    by simp
  have d: "(70000::nat) > 65535"
    by simp
  from write_buf_cap [of udp_staging 70000 "replicate 70000 7" frame_staging] a b c d
  show ?thesis
    by (simp add: Let_def)
qed

subsection \<open>A failed bind\<close>

text \<open>
  C3, as the claim states it, fails: a first \<^verbatim>\<open>begin\<close> whose \<^verbatim>\<open>udp_bind\<close> reports
  an address in use, and a first \<^verbatim>\<open>beginMulticast\<close> with the unicast address
  10.0.0.5, both return false and leave the channel holding the control block that
  \<^verbatim>\<open>udp_new\<close> has just returned.
\<close>

theorem begin_failure_keeps_pcb_counterexample:
  "pcb EthernetUDP_new = None
   \<and> fst (begin_udp (Some 1) ERR_USE 5000 EthernetUDP_new) = False
   \<and> pcb (snd (begin_udp (Some 1) ERR_USE 5000 EthernetUDP_new)) = Some 1
   \<and> fst (beginMulticast (Some 1) ERR_OK 0x0A000005 5000 EthernetUDP_new) = False
   \<and> pcb (snd (beginMulticast (Some 1) ERR_OK 0x0A000005 5000 EthernetUDP_new)) = Some 1"
  by (simp add: begin_udp_def beginMulticast_def EthernetUDP_new_def)

text \<open>
  C3, amended. On a channel whose handle is null, a failed \<^verbatim>\<open>begin\<close> or
  \<^verbatim>\<open>beginMulticast\<close> leaves in the handle exactly what \<^verbatim>\<open>udp_new\<close> returned: the
  handle is still null when the allocation failed, and it is the new control block,
  kept and not released, when the multicast check or the bind failed. A failed
  allocation always makes the call fail.
\<close>

theorem begin_failure_pcb:
  "pcb u = None \<longrightarrow>
     (\<not> fst (begin_udp new bound lp u) \<longrightarrow>
        pcb (snd (begin_udp new bound lp u)) = new \<and> (new = None \<or> bound \<noteq> ERR_OK))
   \<and> (\<not> fst (beginMulticast new bound ip lp u) \<longrightarrow>
        pcb (snd (beginMulticast new bound ip lp u)) = new
        \<and> (new = None \<or> ip AND 0xF0000000 \<noteq> 0xE0000000 \<or> bound \<noteq> ERR_OK))
   \<and> (new = None \<longrightarrow>
        \<not> fst (begin_udp new bound lp u) \<and> \<not> fst (beginMulticast new bound ip lp u)
        \<and> pcb (snd (begin_udp new bound lp u)) = None
        \<and> pcb (snd (beginMulticast new bound ip lp u)) = None)"
  by (simp add: begin_udp_def beginMulticast_def Let_def)

theorem begin_failure_pcb_witness:
  "pcb EthernetUDP_new = None
   \<and> \<not> fst (begin_udp None ERR_OK 5000 EthernetUDP_new)
   \<and> pcb (snd (begin_udp None ERR_OK 5000 EthernetUDP_new)) = None
   \<and> \<not> fst (beginMulticast None ERR_OK 0xE0000001 5000 EthernetUDP_new)
   \<and> pcb (snd (beginMulticast None ERR_OK 0xE0000001 5000 EthernetUDP_new)) = None"
proof -
  have a: "pcb EthernetUDP_new = None"
    by (simp add: EthernetUDP_new_def)
  from begin_failure_pcb [of EthernetUDP_new None ERR_OK 5000 "0xE0000001"] a
  show ?thesis
    by simp
qed

subsection \<open>Every call returns\<close>

lemma read_total: "\<exists>r. read u = Some r"
  by (cases "isAvailable u") (simp_all add: read_def vec_at_available)

lemma peek_total: "\<exists>r. peek u = Some r"
  by (cases "isAvailable u") (simp_all add: peek_def vec_at_available)

lemma read_frame_total: "\<exists>r. read_frame f = Some r"
  by (cases "isAvailable_frame f") (simp_all add: read_frame_def vec_at_available_frame)

lemma peek_frame_total: "\<exists>r. peek_frame f = Some r"
  by (cases "isAvailable_frame f") (simp_all add: peek_frame_def vec_at_available_frame)

lemma udp_step_total: "\<exists>u1. udp_step e u = Some u1"
proof (cases e)
  case Read
  then show ?thesis using read_total [of u] by auto
next
  case Peek
  then show ?thesis using peek_total [of u] by auto
next
  case (RecvFunc c p a prt)
  then show ?thesis by (simp add: recvFunc_def split: option.splits)
next
  case (DnsFoundFunc name ipaddr)
  then show ?thesis by (simp add: dnsFoundFunc_def split: option.splits)
qed simp_all

lemma frame_step_total: "\<exists>f1. frame_step e f = Some f1"
proof (cases e)
  case FRead
  then show ?thesis using read_frame_total [of f] by auto
next
  case FPeek
  then show ?thesis using peek_frame_total [of f] by auto
qed simp_all

subsection \<open>Closing outbound staging\<close>

lemma udp_step_closed:
  assumes "\<not> opens_staging e" and "\<not> hasOutPacket u" and "udp_step e u = Some u1"
  shows "\<not> hasOutPacket u1 \<and> udp_sendto_calls u1 = udp_sendto_calls u"
  using assms
  by (cases e)
     (auto simp: begin_udp_def beginMulticast_def stop_def parsePacket_def read_def
        read_buf_def peek_def flush_udp_def endPacket_def write_udp_def write_buf_udp_def
        recvFunc_def dnsFoundFunc_def Let_def
        split: option.splits if_splits)

lemma udp_run_closed:
  assumes "\<forall>e \<in> set es. \<not> opens_staging e" and "\<not> hasOutPacket u"
  shows "\<exists>u1. udp_run es u = Some u1 \<and> \<not> hasOutPacket u1
           \<and> udp_sendto_calls u1 = udp_sendto_calls u"
  using assms
proof (induction es arbitrary: u)
  case Nil
  then show ?case by simp
next
  case (Cons e es)
  obtain u1 where s: "udp_step e u = Some u1"
    using udp_step_total by blast
  with Cons.prems have c: "\<not> hasOutPacket u1 \<and> udp_sendto_calls u1 = udp_sendto_calls u"
    using udp_step_closed [of e u u1] by simp
  from Cons.prems have "\<forall>e \<in> set es. \<not> opens_staging e" by simp
  with Cons.IH [of u1] c s show ?case by simp
qed

lemma EthernetClass_loop_inFrame:
  "EthernetClass_loop ps f
     = f\<lparr>inFrame := (if ps = [] then inFrame f else copy_chain (Some (last ps)) [])\<rparr>"
  by (induction ps arbitrary: f) (simp_all add: recvFunc_frame_def)

lemma frame_step_closed:
  assumes "\<not> opens_frame e" and "\<not> hasOutFrame f" and "frame_step e f = Some f1"
  shows "\<not> hasOutFrame f1
         \<and> (\<not> sends_direct e \<longrightarrow> enet_output_frame_calls f1 = enet_output_frame_calls f)"
  using assms
  by (cases e)
     (auto simp: recvFunc_frame_def parseFrame_def read_frame_def
        read_buf_frame_def peek_frame_def endFrame_def write_frame_def write_buf_frame_def
        send_frame_def Let_def EthernetClass_loop_inFrame
        split: option.splits if_splits)

lemma frame_run_closed:
  assumes "\<forall>e \<in> set es. \<not> opens_frame e" and "\<not> hasOutFrame f"
  shows "\<exists>f1. frame_run es f = Some f1 \<and> \<not> hasOutFrame f1
           \<and> ((\<forall>e \<in> set es. \<not> sends_direct e) \<longrightarrow>
                enet_output_frame_calls f1 = enet_output_frame_calls f)"
  using assms
proof (induction es arbitrary: f)
  case Nil
  then show ?case by simp
next
  case (Cons e es)
  obtain f1 where s: "frame_step e f = Some f1"
    using frame_step_total by blast
  with Cons.prems have c: "\<not> hasOutFrame f1
      \<and> (\<not> sends_direct e \<longrightarrow> enet_output_frame_calls f1 = enet_output_frame_calls f)"
    using frame_step_closed [of e f f1] by simp
  from Cons.prems have "\<forall>e \<in> set es. \<not> opens_frame e" by simp
  with Cons.IH [of f1] c s show ?case by auto
qed

text \<open>
  C9. \<^verbatim>\<open>endPacket()\<close> and \<^verbatim>\<open>endFrame()\<close> leave the staging flag cleared whatever
  the allocation and the send answer, and add at most one call to the transmit trace
  (none when staging was closed or \<^verbatim>\<open>pbuf_alloc\<close> failed). After that, through every
  sequence of events that contains no \<^verbatim>\<open>beginPacket\<close> / \<^verbatim>\<open>beginFrame\<close>, the flag
  stays cleared, every \<^verbatim>\<open>write\<close> returns 0, every \<^verbatim>\<open>endPacket()\<close> /
  \<^verbatim>\<open>endFrame()\<close> returns false, and nothing more is handed to \<^verbatim>\<open>udp_sendto\<close> (for
  frames: to \<^verbatim>\<open>enet_output_frame\<close>, unless the caller uses the direct \<^verbatim>\<open>send\<close>).
\<close>

theorem end_closes_staging:
  "(let u1 = snd (endPacket alloc_ok sent u)
    in \<not> hasOutPacket u1
     \<and> (udp_sendto_calls u1 = udp_sendto_calls u
        \<or> (hasOutPacket u \<and> alloc_ok
           \<and> (\<exists>c. udp_sendto_calls u1 = udp_sendto_calls u @ [c])))
     \<and> (\<forall>es. (\<forall>e \<in> set es. \<not> opens_staging e) \<longrightarrow>
          (\<exists>u2. udp_run es u1 = Some u2
             \<and> \<not> hasOutPacket u2
             \<and> udp_sendto_calls u2 = udp_sendto_calls u1
             \<and> (\<forall>b. write_udp b u2 = (0, u2))
             \<and> (\<forall>buffer sz. write_buf_udp buffer sz u2 = (0, u2))
             \<and> (\<forall>a r. endPacket a r u2 = (False, u2)))))
   \<and> (let f1 = snd (endFrame ok f)
    in \<not> hasOutFrame f1
     \<and> (enet_output_frame_calls f1 = enet_output_frame_calls f
        \<or> (hasOutFrame f
           \<and> enet_output_frame_calls f1 = enet_output_frame_calls f @ [outFrame f]))
     \<and> (\<forall>es. (\<forall>e \<in> set es. \<not> opens_frame e) \<longrightarrow>
          (\<exists>f2. frame_run es f1 = Some f2
             \<and> \<not> hasOutFrame f2
             \<and> ((\<forall>e \<in> set es. \<not> sends_direct e) \<longrightarrow>
                  enet_output_frame_calls f2 = enet_output_frame_calls f1)
             \<and> (\<forall>b. write_frame b f2 = (0, f2))
             \<and> (\<forall>buffer sz. write_buf_frame buffer sz f2 = (0, f2))
             \<and> (\<forall>r. endFrame r f2 = (False, f2)))))"
proof -
  have a: "\<not> hasOutPacket (snd (endPacket alloc_ok sent u))"
    by (simp add: endPacket_def Let_def)
  have b: "\<not> hasOutFrame (snd (endFrame ok f))"
    by (simp add: endFrame_def Let_def)
  have c: "udp_sendto_calls (snd (endPacket alloc_ok sent u)) = udp_sendto_calls u
        \<or> (hasOutPacket u \<and> alloc_ok
           \<and> (\<exists>c. udp_sendto_calls (snd (endPacket alloc_ok sent u)) = udp_sendto_calls u @ [c]))"
    by (simp add: endPacket_def Let_def)
  have d: "enet_output_frame_calls (snd (endFrame ok f)) = enet_output_frame_calls f
        \<or> (hasOutFrame f
           \<and> enet_output_frame_calls (snd (endFrame ok f))
               = enet_output_frame_calls f @ [outFrame f])"
    by (simp add: endFrame_def Let_def)
  have e: "\<exists>u2. udp_run es (snd (endPacket alloc_ok sent u)) = Some u2
             \<and> \<not> hasOutPacket u2
             \<and> udp_sendto_calls u2 = udp_sendto_calls (snd (endPacket alloc_ok sent u))
             \<and> (\<forall>b. write_udp b u2 = (0, u2))
             \<and> (\<forall>buffer sz. write_buf_udp buffer sz u2 = (0, u2))
             \<and> (\<forall>a r. endPacket a r u2 = (False, u2))"
    if "\<forall>e \<in> set es. \<not> opens_staging e" for es
  proof -
    from udp_run_closed [OF that a] obtain u2 where
      r: "udp_run es (snd (endPacket alloc_ok sent u)) = Some u2" "\<not> hasOutPacket u2"
         "udp_sendto_calls u2 = udp_sendto_calls (snd (endPacket alloc_ok sent u))"
      by blast
    then show ?thesis
      by (simp add: write_udp_def write_buf_udp_def endPacket_def)
  qed
  have g: "\<exists>f2. frame_run es (snd (endFrame ok f)) = Some f2
             \<and> \<not> hasOutFrame f2
             \<and> ((\<forall>e \<in> set es. \<not> sends_direct e) \<longrightarrow>
                  enet_output_frame_calls f2 = enet_output_frame_calls (snd (endFrame ok f)))
             \<and> (\<forall>b. write_frame b f2 = (0, f2))
             \<and> (\<forall>buffer sz. write_buf_frame buffer sz f2 = (0, f2))
             \<and> (\<forall>r. endFrame r f2 = (False, f2))"
    if "\<forall>e \<in> set es. \<not> opens_frame e" for es
  proof -
    from frame_run_closed [OF that b] obtain f2 where
      r: "frame_run es (snd (endFrame ok f)) = Some f2" "\<not> hasOutFrame f2"
         "(\<forall>e \<in> set es. \<not> sends_direct e) \<longrightarrow>
            enet_output_frame_calls f2 = enet_output_frame_calls (snd (endFrame ok f))"
      by blast
    then show ?thesis
      by (simp add: write_frame_def write_buf_frame_def endFrame_def)
  qed
  from a b c d e g show ?thesis
    unfolding Let_def by blast
qed

theorem end_closes_staging_witness:
  "\<not> hasOutPacket (snd (endPacket True ERR_MEM udp_staging))
   \<and> (\<exists>c. udp_sendto_calls (snd (endPacket True ERR_MEM udp_staging))
            = udp_sendto_calls udp_staging @ [c])
   \<and> (\<exists>u2. udp_run [Write 5, EndPacket True ERR_OK, Stop]
               (snd (endPacket True ERR_MEM udp_staging)) = Some u2
         \<and> udp_sendto_calls u2 = udp_sendto_calls (snd (endPacket True ERR_MEM udp_staging))
         \<and> write_udp 5 u2 = (0, u2) \<and> endPacket True ERR_OK u2 = (False, u2))
   \<and> \<not> hasOutFrame (snd (endFrame False frame_staging))
   \<and> (\<exists>f2. frame_run [FWrite 5, EndFrame True] (snd (endFrame False frame_staging)) = Some f2
         \<and> enet_output_frame_calls f2
             = enet_output_frame_calls (snd (endFrame False frame_staging))
         \<and> write_frame 5 f2 = (0, f2) \<and> endFrame True f2 = (False, f2))"
proof -
  have a: "\<forall>e \<in> set [Write 5, EndPacket True ERR_OK, Stop]. \<not> opens_staging e"
    by simp
  have b: "\<forall>e \<in> set [FWrite 5, EndFrame True]. \<not> opens_frame e"
    by simp
  have c: "\<forall>e \<in> set [FWrite 5, EndFrame True]. \<not> sends_direct e"
    by simp
  have d: "hasOutPacket udp_staging"
    by (simp add: udp_staging_def EthernetUDP_new_def)
  have e: "udp_sendto_calls (snd (endPacket True ERR_MEM udp_staging))
             \<noteq> udp_sendto_calls udp_staging"
    by (simp add: endPacket_def udp_staging_def EthernetUDP_new_def Let_def)
  from end_closes_staging [of True ERR_MEM udp_staging False frame_staging] a b c d e
  show ?thesis
    unfolding Let_def by blast
qed

subsection \<open>What endPacket and endFrame hand to the stack\<close>

text \<open>
  C1, on the code. On a new channel, \<^verbatim>\<open>beginPacket(10.0.0.5, 9000)\<close>, a
  \<^verbatim>\<open>write\<close> of the two bytes 1, 2 and \<^verbatim>\<open>endPacket()\<close> make one \<^verbatim>\<open>udp_sendto\<close>
  call: its pbuf argument is the null pointer, not the two bytes, and its port argument
  is 0, not 9000.
\<close>

theorem endPacket_sends_null_pbuf:
  "map_option udp_sendto_calls
     (udp_run [BeginPacket (Some 1) 0x0A000005 9000, WriteBuf [1, 2] 2, EndPacket True ERR_OK]
        EthernetUDP_new)
   = Some [(Some 1, None, 0x0A000005, 0)]"
  by (simp add: beginPacket_def write_buf_udp_def endPacket_def EthernetUDP_new_def
        UINT16_MAX_def Let_def)

text \<open>
  The same in every state: the pbuf argument of the call is the null pointer, the port
  is the field \<^verbatim>\<open>outPort_\<close>, and \<^verbatim>\<open>beginPacket\<close> leaves that field as it was. The
  frame channel hands over the staged bytes.
\<close>

lemma endPacket_call:
  "hasOutPacket u \<Longrightarrow>
     udp_sendto_calls (snd (endPacket True sent u))
       = udp_sendto_calls u @ [(pcb u, None, outIpaddr u, outPort u)]"
  by (simp add: endPacket_def Let_def)

lemma beginPacket_outPort: "outPort (snd (beginPacket new ip prt u)) = outPort u"
  by (simp add: beginPacket_def Let_def)

lemma endFrame_sends_staged:
  "0 < length B \<Longrightarrow> length B \<le> 65535 \<Longrightarrow>
     enet_output_frame_calls
        (snd (endFrame sent (snd (write_buf_frame B (length B) (beginFrame f)))))
       = enet_output_frame_calls f @ [B]"
  by (simp add: endFrame_def write_buf_frame_def beginFrame_def UINT16_MAX_def Let_def)

subsection \<open>What the wait loop and the events leave alone\<close>

lemma delay_lookup_only:
  "delay ms script (t, u) = (t1, u1) \<Longrightarrow>
     u1 = u\<lparr>lookupIP := lookupIP u1, lookupFound := lookupFound u1\<rparr>"
  by (auto simp: delay_def dnsFoundFunc_def split: list.splits option.splits if_splits)

lemma dns_wait_lookup_only:
  "dns_wait script n t u = (n1, t1, u1) \<Longrightarrow>
     u1 = u\<lparr>lookupIP := lookupIP u1, lookupFound := lookupFound u1\<rparr>"
proof (induction script n t u rule: dns_wait.induct)
  case (1 script sleeps timer u)
  obtain t2 u2 where d: "delay 10 script (timer, u) = (t2, u2)"
    by (cases "delay 10 script (timer, u)")
  note u2 = delay_lookup_only [OF d]
  show ?case
  proof (cases "lookupIP u2 = INADDR_NONE \<and> t2 < 2000")
    case True
    with "1.prems" d have r: "dns_wait (tl script) (sleeps + 1) t2 u2 = (n1, t1, u1)"
      by (simp add: dns_wait.simps [of script])
    have "u1 = u2\<lparr>lookupIP := lookupIP u1, lookupFound := lookupFound u1\<rparr>"
      by (rule "1.IH" [OF d [symmetric] True r])
    then have "u1 = (u\<lparr>lookupIP := lookupIP u2, lookupFound := lookupFound u2\<rparr>)
                    \<lparr>lookupIP := lookupIP u1, lookupFound := lookupFound u1\<rparr>"
      using u2 by simp
    then show ?thesis by simp
  next
    case False
    with "1.prems" d have "u1 = u2"
      by (auto simp: dns_wait.simps [of script])
    with u2 show ?thesis by simp
  qed
qed

lemma dns_wait_fields:
  assumes "dns_wait script n t u = (n1, t1, u1)"
  shows "pcb u1 = pcb u" "inPacket u1 = inPacket u" "packet u1 = packet u"
    "packetPos u1 = packetPos u" "inAddr u1 = inAddr u" "inPort u1 = inPort u"
    "hasOutPacket u1 = hasOutPacket u" "outIpaddr u1 = outIpaddr u" "outPort u1 = outPort u"
    "outPacket u1 = outPacket u" "lookupHost u1 = lookupHost u"
    "udp_sendto_calls u1 = udp_sendto_calls u"
proof -
  note e = dns_wait_lookup_only [OF assms]
  show "pcb u1 = pcb u" using e [THEN arg_cong [where f = pcb]] by simp
  show "inPacket u1 = inPacket u" using e [THEN arg_cong [where f = inPacket]] by simp
  show "packet u1 = packet u" using e [THEN arg_cong [where f = packet]] by simp
  show "packetPos u1 = packetPos u" using e [THEN arg_cong [where f = packetPos]] by simp
  show "inAddr u1 = inAddr u" using e [THEN arg_cong [where f = inAddr]] by simp
  show "inPort u1 = inPort u" using e [THEN arg_cong [where f = inPort]] by simp
  show "hasOutPacket u1 = hasOutPacket u" using e [THEN arg_cong [where f = hasOutPacket]] by simp
  show "outIpaddr u1 = outIpaddr u" using e [THEN arg_cong [where f = outIpaddr]] by simp
  show "outPort u1 = outPort u" using e [THEN arg_cong [where f = outPort]] by simp
  show "outPacket u1 = outPacket u" using e [THEN arg_cong [where f = outPacket]] by simp
  show "lookupHost u1 = lookupHost u" using e [THEN arg_cong [where f = lookupHost]] by simp
  show "udp_sendto_calls u1 = udp_sendto_calls u"
    using e [THEN arg_cong [where f = udp_sendto_calls]] by simp
qed

lemma beginPacket_host_reception:
  assumes "beginPacket_host dns addr script new host prt u = (r, w, u2)"
  shows "inPacket u2 = inPacket u \<and> inAddr u2 = inAddr u \<and> inPort u2 = inPort u
         \<and> packet u2 = packet u \<and> packetPos u2 = packetPos u"
proof (cases "dns = ERR_INPROGRESS")
  case True
  obtain n1 t1 u1 where
    d: "dns_wait script 0 0
          (u\<lparr>lookupHost := host, lookupIP := INADDR_NONE, lookupFound := False\<rparr>) = (n1, t1, u1)"
    using prod_cases3 by blast
  note f = dns_wait_fields [OF d]
  from assms True d f show ?thesis
    by (auto simp: beginPacket_host_def beginPacket_def Let_def split: if_splits)
next
  case False
  with assms show ?thesis
    by (cases dns) (auto simp: beginPacket_host_def beginPacket_def Let_def split: if_splits)
qed

lemma udp_step_reception:
  assumes "udp_step e u = Some u1" and "\<not> delivers e"
  shows "inAddr u1 = inAddr u \<and> inPort u1 = inPort u
         \<and> (inPacket u1 = inPacket u \<or> (e = ParsePacket \<and> inPacket u1 = []))"
proof (cases e)
  case (BeginPacketHost dns addr script new host prt)
  obtain r w u2 where b: "beginPacket_host dns addr script new host prt u = (r, w, u2)"
    using prod_cases3 by blast
  with assms BeginPacketHost beginPacket_host_reception [OF b] show ?thesis by simp
next
  case (RecvFunc c p a q)
  with assms show ?thesis
    by (cases c; cases p) (auto simp: recvFunc_def stop_def split: option.splits)
qed (use assms in \<open>auto simp: begin_udp_def beginMulticast_def stop_def parsePacket_def read_def
        read_buf_def peek_def flush_udp_def endPacket_def write_udp_def write_buf_udp_def
        beginPacket_def dnsFoundFunc_def Let_def
        split: option.splits if_splits\<close>)

lemma udp_run_reception:
  assumes "\<forall>e \<in> set es. \<not> delivers e"
  shows "\<exists>u1. udp_run es u = Some u1 \<and> inAddr u1 = inAddr u \<and> inPort u1 = inPort u
           \<and> (inPacket u1 = inPacket u \<or> (ParsePacket \<in> set es \<and> inPacket u1 = []))"
  using assms
proof (induction es arbitrary: u)
  case Nil
  then show ?case by simp
next
  case (Cons e es)
  obtain u1 where s: "udp_step e u = Some u1"
    using udp_step_total by blast
  from Cons.prems have ne: "\<not> delivers e" and nes: "\<forall>e \<in> set es. \<not> delivers e"
    by simp_all
  note a = udp_step_reception [OF s ne]
  from Cons.IH [OF nes, of u1] obtain u2 where
    r: "udp_run es u1 = Some u2" "inAddr u2 = inAddr u1" "inPort u2 = inPort u1"
       "inPacket u2 = inPacket u1 \<or> (ParsePacket \<in> set es \<and> inPacket u2 = [])"
    by blast
  from a r s show ?case by auto
qed

subsection \<open>The cursor\<close>

lemma udp_step_cursor:
  assumes "udp_step e u = Some u1"
  shows "(packetPos u = -1 \<and> (case e of ParsePacket \<Rightarrow> fst (parsePacket u) = 0 | _ \<Rightarrow> True)
            \<longrightarrow> packetPos u1 = -1)
         \<and> (udp_inv u \<longrightarrow> udp_inv u1)"
proof (cases e)
  case (BeginPacketHost dns addr script new host prt)
  obtain r w u2 where b: "beginPacket_host dns addr script new host prt u = (r, w, u2)"
    using prod_cases3 by blast
  with assms BeginPacketHost beginPacket_host_reception [OF b] show ?thesis
    by (simp add: udp_inv_def)
next
  case (RecvFunc c p a q)
  with assms show ?thesis
    by (cases c; cases p) (auto simp: recvFunc_def stop_def udp_inv_def split: option.splits)
qed (use assms in \<open>auto simp: begin_udp_def beginMulticast_def stop_def parsePacket_def read_def
        read_buf_def peek_def flush_udp_def endPacket_def write_udp_def write_buf_udp_def
        beginPacket_def dnsFoundFunc_def Let_def udp_inv_def isAvailable_def
        split: option.splits if_splits\<close>)

lemma frame_step_cursor:
  assumes "frame_step e f = Some f1"
  shows "(framePos f = -1
            \<and> (case e of ParseFrame arrivals \<Rightarrow> fst (parseFrame arrivals f) = 0 | _ \<Rightarrow> True)
            \<longrightarrow> framePos f1 = -1)
         \<and> (frame_inv f \<longrightarrow> frame_inv f1)"
  using assms
  by (cases e)
     (auto simp: recvFunc_frame_def parseFrame_def read_frame_def read_buf_frame_def
        peek_frame_def endFrame_def write_frame_def write_buf_frame_def send_frame_def
        beginFrame_def beginFrame_hdr_def beginVLANFrame_def
        Let_def EthernetClass_loop_inFrame frame_inv_def isAvailable_frame_def
        split: option.splits if_splits)



lemma udp_run_inv:
  assumes "udp_inv u"
  shows "\<exists>u1. udp_run es u = Some u1 \<and> udp_inv u1"
  using assms
proof (induction es arbitrary: u)
  case Nil
  then show ?case by simp
next
  case (Cons e es)
  obtain u1 where s: "udp_step e u = Some u1"
    using udp_step_total by blast
  with Cons.prems udp_step_cursor [OF s] have "udp_inv u1"
    by simp
  with Cons.IH [of u1] s show ?case by simp
qed

lemma frame_run_inv:
  assumes "frame_inv f"
  shows "\<exists>f1. frame_run es f = Some f1 \<and> frame_inv f1"
  using assms
proof (induction es arbitrary: f)
  case Nil
  then show ?case by simp
next
  case (Cons e es)
  obtain f1 where s: "frame_step e f = Some f1"
    using frame_step_total by blast
  with Cons.prems frame_step_cursor [OF s] have "frame_inv f1"
    by simp
  with Cons.IH [of f1] s show ?case by simp
qed



subsection \<open>The sender of the claimed packet\<close>

text \<open>
  C2, as the claim states it, fails. \<^verbatim>\<open>remoteIP()\<close> and \<^verbatim>\<open>remotePort()\<close> return the
  fields the receive callback writes. After \<^verbatim>\<open>parsePacket()\<close> has claimed the packet
  1, 2 from 10.0.0.5:9000 (it returns 2), the arrival of a packet from 10.0.0.6:9001
  changes both at once, while the active packet is still 1, 2 and no
  \<^verbatim>\<open>parsePacket()\<close> has claimed anything else.
\<close>

theorem remote_follows_arrival_counterexample:
  "map_option (fst \<circ> parsePacket)
     (udp_run [Begin (Some 1) ERR_OK 5000,
               RecvFunc (Some 1) (Some (Pbuf [1, 2] 2 None)) 0x0A000005 9000]
        EthernetUDP_new) = Some 2
   \<and> map_option remoteIP
       (udp_run [Begin (Some 1) ERR_OK 5000,
                 RecvFunc (Some 1) (Some (Pbuf [1, 2] 2 None)) 0x0A000005 9000,
                 ParsePacket]
          EthernetUDP_new) = Some 0x0A000005
   \<and> map_option remoteIP
       (udp_run [Begin (Some 1) ERR_OK 5000,
                 RecvFunc (Some 1) (Some (Pbuf [1, 2] 2 None)) 0x0A000005 9000,
                 ParsePacket,
                 RecvFunc (Some 1) (Some (Pbuf [3] 1 None)) 0x0A000006 9001]
          EthernetUDP_new) = Some 0x0A000006
   \<and> map_option remotePort
       (udp_run [Begin (Some 1) ERR_OK 5000,
                 RecvFunc (Some 1) (Some (Pbuf [1, 2] 2 None)) 0x0A000005 9000,
                 ParsePacket,
                 RecvFunc (Some 1) (Some (Pbuf [3] 1 None)) 0x0A000006 9001]
          EthernetUDP_new) = Some 9001
   \<and> map_option packet
       (udp_run [Begin (Some 1) ERR_OK 5000,
                 RecvFunc (Some 1) (Some (Pbuf [1, 2] 2 None)) 0x0A000005 9000,
                 ParsePacket,
                 RecvFunc (Some 1) (Some (Pbuf [3] 1 None)) 0x0A000006 9001]
          EthernetUDP_new) = Some [1, 2]"
  by (simp add: begin_udp_def recvFunc_def parsePacket_def remoteIP_def remotePort_def
        EthernetUDP_new_def Let_def)

text \<open>
  C2, amended. Take any state, a receive callback that stages a packet \<open>p\<close> from
  \<open>a\<close>:\<open>q\<close>, and any events after it in which no receive callback stages another
  packet. If \<^verbatim>\<open>parsePacket()\<close> then returns a positive length, it is the length of
  \<open>p\<close> and the active packet is \<open>p\<close>; \<^verbatim>\<open>remoteIP()\<close> and \<^verbatim>\<open>remotePort()\<close> then
  return \<open>a\<close> and \<open>q\<close>, and keep returning them through every further sequence of
  events in which no receive callback stages a packet.
\<close>

theorem remote_of_claimed:
  "(\<forall>e \<in> set es1. \<not> delivers e) \<and> (\<forall>e \<in> set es2. \<not> delivers e) \<longrightarrow>
     (\<exists>w. udp_run (RecvFunc (Some c) (Some p) a q # es1) u = Some w
        \<and> (0 < fst (parsePacket w) \<longrightarrow>
             fst (parsePacket w) = int (length (copy_chain (Some p) []))
             \<and> packet (snd (parsePacket w)) = copy_chain (Some p) [])
        \<and> remoteIP (snd (parsePacket w)) = a \<and> remotePort (snd (parsePacket w)) = q
        \<and> (\<exists>w2. udp_run es2 (snd (parsePacket w)) = Some w2
              \<and> remoteIP w2 = a \<and> remotePort w2 = q))"
proof
  assume h: "(\<forall>e \<in> set es1. \<not> delivers e) \<and> (\<forall>e \<in> set es2. \<not> delivers e)"
  let ?u1 = "u\<lparr>inPacket := copy_chain (Some p) [], inAddr := a, inPort := q\<rparr>"
  from h udp_run_reception [of es1 ?u1] obtain w where
    w: "udp_run es1 ?u1 = Some w" "inAddr w = a" "inPort w = q"
       "inPacket w = copy_chain (Some p) [] \<or> inPacket w = []"
    by auto
  have r: "udp_run (RecvFunc (Some c) (Some p) a q # es1) u = Some w"
    using w(1) by (simp add: recvFunc_def)
  have pa: "inAddr (snd (parsePacket w)) = a" "inPort (snd (parsePacket w)) = q"
    using w(2,3) by (simp_all add: parsePacket_def Let_def)
  have pl: "0 < fst (parsePacket w) \<longrightarrow>
             fst (parsePacket w) = int (length (copy_chain (Some p) []))
             \<and> packet (snd (parsePacket w)) = copy_chain (Some p) []"
    using w(4) by (auto simp: parsePacket_def Let_def split: if_splits)
  from h udp_run_reception [of es2 "snd (parsePacket w)"] pa obtain w2 where
    "udp_run es2 (snd (parsePacket w)) = Some w2" "inAddr w2 = a" "inPort w2 = q"
    by auto
  with r pa pl show "\<exists>w. udp_run (RecvFunc (Some c) (Some p) a q # es1) u = Some w
        \<and> (0 < fst (parsePacket w) \<longrightarrow>
             fst (parsePacket w) = int (length (copy_chain (Some p) []))
             \<and> packet (snd (parsePacket w)) = copy_chain (Some p) [])
        \<and> remoteIP (snd (parsePacket w)) = a \<and> remotePort (snd (parsePacket w)) = q
        \<and> (\<exists>w2. udp_run es2 (snd (parsePacket w)) = Some w2
              \<and> remoteIP w2 = a \<and> remotePort w2 = q)"
    by (auto simp: remoteIP_def remotePort_def)
qed

theorem remote_of_claimed_witness:
  "\<exists>w. udp_run [RecvFunc (Some 1) (Some (Pbuf [3, 4, 5] 3 None)) 0x0A000005 9000, Available]
          udp_two_bytes = Some w
      \<and> 0 < fst (parsePacket w) \<and> fst (parsePacket w) = 3
      \<and> packet (snd (parsePacket w)) = [3, 4, 5]
      \<and> (\<exists>w2. udp_run [Read, Peek] (snd (parsePacket w)) = Some w2
            \<and> remoteIP w2 = 0x0A000005 \<and> remotePort w2 = 9000)"
proof -
  have h: "(\<forall>e \<in> set [Available]. \<not> delivers e) \<and> (\<forall>e \<in> set [Read, Peek]. \<not> delivers e)"
    by simp
  from remote_of_claimed [of "[Available]" "[Read, Peek]" 1 "Pbuf [3, 4, 5] 3 None"
      "0x0A000005" 9000 udp_two_bytes] h
  obtain w where
    w: "udp_run [RecvFunc (Some 1) (Some (Pbuf [3, 4, 5] 3 None)) 0x0A000005 9000, Available]
          udp_two_bytes = Some w"
       "0 < fst (parsePacket w) \<longrightarrow>
          fst (parsePacket w) = int (length (copy_chain (Some (Pbuf [3, 4, 5] 3 None)) []))
          \<and> packet (snd (parsePacket w)) = copy_chain (Some (Pbuf [3, 4, 5] 3 None)) []"
       "\<exists>w2. udp_run [Read, Peek] (snd (parsePacket w)) = Some w2
            \<and> remoteIP w2 = 0x0A000005 \<and> remotePort w2 = 9000"
    by blast
  have p: "0 < fst (parsePacket w)"
    using w(1)
    by (auto simp: recvFunc_def parsePacket_def udp_two_bytes_def EthernetUDP_new_def Let_def)
  with w show ?thesis by simp
qed

subsection \<open>parsePacket and parseFrame with nothing staged\<close>




subsection \<open>The cursor invariant\<close>

text \<open>
  C10. From a state in which the cursor is -1 or lies between 0 and the length of the
  active packet (the constructor's state is one), every sequence of member calls and
  callbacks on either channel runs through without indexing a vector out of range and
  ends in such a state. There \<^verbatim>\<open>available()\<close> is not negative, it is the length
  minus the cursor when the cursor is not -1 and 0 when it is, and \<^verbatim>\<open>read()\<close> and
  \<^verbatim>\<open>peek()\<close> index inside the active packet.
\<close>

theorem cursor_in_range:
  "(udp_inv u0 \<longrightarrow>
      (\<exists>u. udp_run es u0 = Some u \<and> udp_inv u
         \<and> 0 \<le> available u
         \<and> available u = (if packetPos u = -1 then 0 else int (length (packet u)) - packetPos u)
         \<and> (\<exists>r. read u = Some r) \<and> (\<exists>r. peek u = Some r)))
   \<and> udp_inv EthernetUDP_new
   \<and> (frame_inv f0 \<longrightarrow>
      (\<exists>f. frame_run fes f0 = Some f \<and> frame_inv f
         \<and> 0 \<le> available_frame f
         \<and> available_frame f
             = (if framePos f = -1 then 0 else int (length (frame f)) - framePos f)
         \<and> (\<exists>r. read_frame f = Some r) \<and> (\<exists>r. peek_frame f = Some r)))
   \<and> frame_inv EthernetFrame_new"
proof -
  have a: "0 \<le> available u
         \<and> available u = (if packetPos u = -1 then 0 else int (length (packet u)) - packetPos u)
         \<and> (\<exists>r. read u = Some r) \<and> (\<exists>r. peek u = Some r)"
    if "udp_inv u" for u
    using that
    by (auto simp: udp_inv_def available_def isAvailable_def read_def peek_def vec_at_def)
  have b: "0 \<le> available_frame f
         \<and> available_frame f
             = (if framePos f = -1 then 0 else int (length (frame f)) - framePos f)
         \<and> (\<exists>r. read_frame f = Some r) \<and> (\<exists>r. peek_frame f = Some r)"
    if "frame_inv f" for f
    using that
    by (auto simp: frame_inv_def available_frame_def isAvailable_frame_def read_frame_def
          peek_frame_def vec_at_def)
  have c: "udp_inv EthernetUDP_new"
    by (simp add: udp_inv_def EthernetUDP_new_def)
  have d: "frame_inv EthernetFrame_new"
    by (simp add: frame_inv_def EthernetFrame_new_def)
  from a b c d udp_run_inv [of u0 es] frame_run_inv [of f0 fes] show ?thesis
    by blast
qed

theorem cursor_in_range_witness:
  "udp_inv EthernetUDP_new \<and> frame_inv EthernetFrame_new
   \<and> (\<exists>u. udp_run [Begin (Some 1) ERR_OK 5000,
                    RecvFunc (Some 1) (Some (Pbuf [1, 2] 2 None)) 0x0A000005 9000,
                    ParsePacket, Read, ReadBuf 5]
             EthernetUDP_new = Some u
         \<and> udp_inv u \<and> packetPos u = 2 \<and> available u = 0)
   \<and> (\<exists>f. frame_run [FRecvFunc (Pbuf [1, 2] 2 None), ParseFrame [], FRead]
             EthernetFrame_new = Some f
         \<and> frame_inv f \<and> framePos f = 1 \<and> available_frame f = 1)"
proof -
  let ?es = "[Begin (Some 1) ERR_OK 5000,
              RecvFunc (Some 1) (Some (Pbuf [1, 2] 2 None)) 0x0A000005 9000,
              ParsePacket, Read, ReadBuf 5]"
  let ?fes = "[FRecvFunc (Pbuf [1, 2] 2 None), ParseFrame [], FRead]"
  note t = cursor_in_range [of EthernetUDP_new ?es EthernetFrame_new ?fes]
  from t obtain u where
    u: "udp_run ?es EthernetUDP_new = Some u" "udp_inv u"
       "available u = (if packetPos u = -1 then 0 else int (length (packet u)) - packetPos u)"
    by blast
  from t obtain f where
    f: "frame_run ?fes EthernetFrame_new = Some f" "frame_inv f"
       "available_frame f
          = (if framePos f = -1 then 0 else int (length (frame f)) - framePos f)"
    by blast
  have pu: "packetPos u = 2 \<and> length (packet u) = 2"
    using u(1)
    by (auto simp: begin_udp_def recvFunc_def parsePacket_def read_def read_buf_def
          isAvailable_def vec_at_def EthernetUDP_new_def Let_def)
  have pf: "framePos f = 1 \<and> length (frame f) = 2"
    using f(1)
    by (auto simp: recvFunc_frame_def parseFrame_def read_frame_def
          isAvailable_frame_def vec_at_def EthernetFrame_new_def Let_def)
  from t u f pu pf show ?thesis by auto
qed

subsection \<open>Latest wins\<close>

text \<open>
  No event but \<^verbatim>\<open>parsePacket()\<close> reads the inbound slot: each one commutes with a
  change of the three fields the receive callback writes, and a callback that stages a
  packet overwrites all three.
\<close>

lemma delay_set_inbound:
  "delay ms script (t, set_inbound x a q u)
     = (case delay ms script (t, u) of (t1, u1) \<Rightarrow> (t1, set_inbound x a q u1))"
  by (auto simp: delay_def dnsFoundFunc_def set_inbound_def split: list.splits option.splits)

lemma dns_wait_set_inbound:
  "dns_wait script n t (set_inbound x a q u)
     = (case dns_wait script n t u of (n1, t1, u1) \<Rightarrow> (n1, t1, set_inbound x a q u1))"
proof (induction script n t u rule: dns_wait.induct)
  case (1 script sleeps timer u)
  obtain t2 u2 where d: "delay 10 script (timer, u) = (t2, u2)"
    by (cases "delay 10 script (timer, u)")
  then have d': "delay 10 script (timer, set_inbound x a q u) = (t2, set_inbound x a q u2)"
    by (simp add: delay_set_inbound)
  have l: "lookupIP (set_inbound x a q u2) = lookupIP u2"
    by (simp add: set_inbound_def)
  have L: "dns_wait script sleeps timer u
             = (if lookupIP u2 = INADDR_NONE \<and> t2 < 2000
                then dns_wait (tl script) (sleeps + 1) t2 u2 else (sleeps + 1, t2, u2))"
    using d by (simp add: dns_wait.simps [of script sleeps timer u])
  have R: "dns_wait script sleeps timer (set_inbound x a q u)
             = (if lookupIP u2 = INADDR_NONE \<and> t2 < 2000
                then dns_wait (tl script) (sleeps + 1) t2 (set_inbound x a q u2)
                else (sleeps + 1, t2, set_inbound x a q u2))"
    using d' l by (simp add: dns_wait.simps [of script sleeps timer "set_inbound x a q u"])
  show ?case
  proof (cases "lookupIP u2 = INADDR_NONE \<and> t2 < 2000")
    case True
    note ih = "1.IH" [OF d [symmetric] True]
    from True ih show ?thesis
      by (simp add: L R)
  next
    case False
    then show ?thesis
      by (simp only: L R if_False prod.case)
  qed
qed

lemma set_inbound_lookup:
  "lookupFound (set_inbound x a q u) = lookupFound u"
  "lookupIP (set_inbound x a q u) = lookupIP u"
  by (simp_all add: set_inbound_def)

lemma beginPacket_set_inbound:
  "beginPacket new ip prt (set_inbound x a q u)
     = (case beginPacket new ip prt u of (r, u1) \<Rightarrow> (r, set_inbound x a q u1))"
  by (simp add: beginPacket_def set_inbound_def Let_def)

lemma beginPacket_host_set_inbound:
  "beginPacket_host dns addr script new host prt (set_inbound x a q u)
     = (case beginPacket_host dns addr script new host prt u of
          (r, w, u2) \<Rightarrow> (r, w, set_inbound x a q u2))"
proof -
  have e: "(set_inbound x a q u)\<lparr>lookupHost := host, lookupIP := INADDR_NONE, lookupFound := False\<rparr>
             = set_inbound x a q
                 (u\<lparr>lookupHost := host, lookupIP := INADDR_NONE, lookupFound := False\<rparr>)"
    by (simp add: set_inbound_def)
  let ?u0 = "u\<lparr>lookupHost := host, lookupIP := INADDR_NONE, lookupFound := False\<rparr>"
  show ?thesis
  proof (cases "dns = ERR_INPROGRESS")
    case True
    obtain n1 t1 u1 where d: "dns_wait script 0 0 ?u0 = (n1, t1, u1)"
      using prod_cases3 by blast
    then have d': "dns_wait script 0 0 (set_inbound x a q ?u0) = (n1, t1, set_inbound x a q u1)"
      by (simp add: dns_wait_set_inbound)
    obtain r u2 where b: "beginPacket new (lookupIP u1) prt u1 = (r, u2)"
      by (cases "beginPacket new (lookupIP u1) prt u1")
    then have b': "beginPacket new (lookupIP u1) prt (set_inbound x a q u1)
                     = (r, set_inbound x a q u2)"
      by (simp add: beginPacket_set_inbound)
    from True d d' b b' show ?thesis
      unfolding beginPacket_host_def e Let_def
      by (simp add: set_inbound_lookup)
  next
    case False
    then show ?thesis
      unfolding beginPacket_host_def e Let_def
      by (cases dns) (simp_all add: beginPacket_set_inbound split: prod.splits)
  qed
qed

lemma udp_step_set_inbound:
  assumes "e \<noteq> ParsePacket"
  shows "udp_step e (set_inbound x a q u)
           = (if delivers e then udp_step e u
              else map_option (set_inbound x a q) (udp_step e u))"
proof (cases e)
  case (Begin new bound lp)
  then show ?thesis
    by (cases "pcb u") (simp_all add: begin_udp_def set_inbound_def Let_def)
next
  case (BeginMulticast new bound ip lp)
  then show ?thesis
    by (cases "pcb u") (simp_all add: beginMulticast_def set_inbound_def Let_def)
next
  case Stop
  then show ?thesis
    by (cases "pcb u") (simp_all add: stop_def set_inbound_def)
next
  case ParsePacket
  with assms show ?thesis by simp
next
  case Available
  then show ?thesis by simp
next
  case Read
  then show ?thesis
    by (cases "vec_at (packet u) (packetPos u)")
       (simp_all add: read_def isAvailable_def set_inbound_def)
next
  case (ReadBuf n)
  then show ?thesis
    by (simp add: read_buf_def isAvailable_def set_inbound_def Let_def)
next
  case Peek
  then show ?thesis
    by (cases "vec_at (packet u) (packetPos u)")
       (simp_all add: peek_def isAvailable_def set_inbound_def)
next
  case Flush
  then show ?thesis
    by (simp add: flush_udp_def set_inbound_def)
next
  case RemoteIP
  then show ?thesis by simp
next
  case RemotePort
  then show ?thesis by simp
next
  case (BeginPacket new ip prt)
  then show ?thesis
    by (simp add: beginPacket_set_inbound split: prod.splits)
next
  case (BeginPacketHost dns addr script new host prt)
  then show ?thesis
    by (simp add: beginPacket_host_set_inbound split: prod.splits)
next
  case (EndPacket alloc_ok sent)
  then show ?thesis
    by (simp add: endPacket_def set_inbound_def Let_def)
next
  case (Write b)
  then show ?thesis
    by (simp add: write_udp_def set_inbound_def)
next
  case (WriteBuf buffer sz)
  then show ?thesis
    by (simp add: write_buf_udp_def set_inbound_def Let_def)
next
  case (RecvFunc c p a' q')
  then show ?thesis
    by (cases c; cases p; cases "pcb u") (simp_all add: recvFunc_def stop_def set_inbound_def)
next
  case (DnsFoundFunc name ipaddr)
  then show ?thesis
    by (cases ipaddr) (simp_all add: dnsFoundFunc_def set_inbound_def)
qed

lemma udp_run_total: "\<exists>w. udp_run es u = Some w"
proof (induction es arbitrary: u)
  case Nil
  then show ?case by simp
next
  case (Cons e es)
  obtain u1 where "udp_step e u = Some u1"
    using udp_step_total by blast
  with Cons.IH [of u1] show ?case by simp
qed

lemma udp_run_append:
  "udp_run (xs @ ys) u = (case udp_run xs u of None \<Rightarrow> None | Some v \<Rightarrow> udp_run ys v)"
  by (induction xs arbitrary: u) (simp_all split: option.splits)

lemma udp_run_set_inbound:
  assumes "\<forall>e \<in> set es. e \<noteq> ParsePacket"
  shows "udp_run es (set_inbound x a q u)
           = (if \<exists>e \<in> set es. delivers e then udp_run es u
              else map_option (set_inbound x a q) (udp_run es u))"
  using assms
proof (induction es arbitrary: u)
  case Nil
  then show ?case by simp
next
  case (Cons e es)
  obtain u1 where s: "udp_step e u = Some u1"
    using udp_step_total by blast
  from Cons.prems have ne: "e \<noteq> ParsePacket" and nes: "\<forall>e \<in> set es. e \<noteq> ParsePacket"
    by simp_all
  note st = udp_step_set_inbound [OF ne, of x a q u]
  show ?case
  proof (cases "delivers e")
    case True
    with st s show ?thesis by simp
  next
    case False
    with st s have "udp_step e (set_inbound x a q u) = Some (set_inbound x a q u1)"
      by simp
    with s False Cons.IH [OF nes, of u1] show ?thesis by simp
  qed
qed

text \<open>
  C4, as the claim states it, fails: \<^verbatim>\<open>parsePacket()\<close> returns 0 at once when the
  handle is null. After \<^verbatim>\<open>begin\<close>, the arrival of 1, 2 from 10.0.0.5:9000, the arrival
  of 3, 4, 5 from 10.0.0.6:9001 and \<^verbatim>\<open>stop()\<close>, with no \<^verbatim>\<open>parsePacket()\<close> in
  between, the next \<^verbatim>\<open>parsePacket()\<close> returns 0, not 3; the second packet stays
  staged and the active packet stays empty.
\<close>

theorem latest_wins_stopped_counterexample:
  "int (length (copy_chain (Some (Pbuf [3, 4, 5] 3 None)) [])) = 3
   \<and> map_option (fst \<circ> parsePacket)
       (udp_run [Begin (Some 1) ERR_OK 5000,
                 RecvFunc (Some 1) (Some (Pbuf [1, 2] 2 None)) 0x0A000005 9000,
                 RecvFunc (Some 1) (Some (Pbuf [3, 4, 5] 3 None)) 0x0A000006 9001,
                 Stop]
          EthernetUDP_new) = Some 0
   \<and> map_option (packet \<circ> snd \<circ> parsePacket)
       (udp_run [Begin (Some 1) ERR_OK 5000,
                 RecvFunc (Some 1) (Some (Pbuf [1, 2] 2 None)) 0x0A000005 9000,
                 RecvFunc (Some 1) (Some (Pbuf [3, 4, 5] 3 None)) 0x0A000006 9001,
                 Stop]
          EthernetUDP_new) = Some []
   \<and> map_option (available \<circ> snd \<circ> parsePacket)
       (udp_run [Begin (Some 1) ERR_OK 5000,
                 RecvFunc (Some 1) (Some (Pbuf [1, 2] 2 None)) 0x0A000005 9000,
                 RecvFunc (Some 1) (Some (Pbuf [3, 4, 5] 3 None)) 0x0A000006 9001,
                 Stop]
          EthernetUDP_new) = Some 0"
  by (simp add: begin_udp_def recvFunc_def stop_def parsePacket_def available_def
        isAvailable_def EthernetUDP_new_def Let_def)

text \<open>
  C4, amended. Let the receive callback stage \<open>p1\<close> from \<open>a1\<close>:\<open>q1\<close> and later
  \<open>p2\<close> from \<open>a2\<close>:\<open>q2\<close>, with any events but \<^verbatim>\<open>parsePacket()\<close> in between, and
  any events but \<^verbatim>\<open>parsePacket()\<close> and further arrivals after the second. The state
  reached is the state the same run reaches without the first callback, so nothing of
  \<open>p1\<close> or its sender can be observed from then on; the staged packet is \<open>p2\<close> and
  \<^verbatim>\<open>remoteIP()\<close> / \<^verbatim>\<open>remotePort()\<close> return \<open>a2\<close> and \<open>q2\<close>. If the handle is not
  null at the next \<^verbatim>\<open>parsePacket()\<close>, that call returns the length of \<open>p2\<close>, the
  active packet is \<open>p2\<close>, \<^verbatim>\<open>read(buffer, n)\<close> copies the first \<open>n\<close> bytes of
  \<open>p2\<close>, and the sender reported is still \<open>a2\<close>:\<open>q2\<close>. If the handle is null, the
  call returns 0 and changes nothing.
\<close>

theorem latest_wins:
  "(\<forall>e \<in> set es1. e \<noteq> ParsePacket) \<and> (\<forall>e \<in> set es2. e \<noteq> ParsePacket \<and> \<not> delivers e) \<longrightarrow>
     (\<exists>w. udp_run (RecvFunc (Some c1) (Some p1) a1 q1
                     # es1 @ RecvFunc (Some c2) (Some p2) a2 q2 # es2) u = Some w
        \<and> udp_run (es1 @ RecvFunc (Some c2) (Some p2) a2 q2 # es2) u = Some w
        \<and> inPacket w = copy_chain (Some p2) []
        \<and> remoteIP w = a2 \<and> remotePort w = q2
        \<and> (pcb w = None \<longrightarrow> parsePacket w = (0, w))
        \<and> (pcb w \<noteq> None \<longrightarrow>
             fst (parsePacket w) = int (length (copy_chain (Some p2) []))
             \<and> packet (snd (parsePacket w)) = copy_chain (Some p2) []
             \<and> inPacket (snd (parsePacket w)) = []
             \<and> available (snd (parsePacket w)) = int (length (copy_chain (Some p2) []))
             \<and> fst (snd (read_buf n (snd (parsePacket w)))) = take n (copy_chain (Some p2) [])
             \<and> remoteIP (snd (parsePacket w)) = a2
             \<and> remotePort (snd (parsePacket w)) = q2))"
proof
  assume h: "(\<forall>e \<in> set es1. e \<noteq> ParsePacket)
             \<and> (\<forall>e \<in> set es2. e \<noteq> ParsePacket \<and> \<not> delivers e)"
  let ?r2 = "RecvFunc (Some c2) (Some p2) a2 q2"
  let ?rest = "es1 @ ?r2 # es2"
  let ?P2 = "copy_chain (Some p2) []"
  from h have np: "\<forall>e \<in> set ?rest. e \<noteq> ParsePacket"
    by auto
  have dl: "\<exists>e \<in> set ?rest. delivers e"
    by auto
  have first: "udp_run (RecvFunc (Some c1) (Some p1) a1 q1 # ?rest) u
                 = udp_run ?rest (set_inbound (copy_chain (Some p1) []) a1 q1 u)"
    by (simp add: recvFunc_def set_inbound_def)
  also have "\<dots> = udp_run ?rest u"
    using udp_run_set_inbound [OF np] dl by simp
  finally have same: "udp_run (RecvFunc (Some c1) (Some p1) a1 q1 # ?rest) u = udp_run ?rest u" .
  obtain v where v: "udp_run es1 u = Some v"
    using udp_run_total by blast
  let ?v2 = "v\<lparr>inPacket := ?P2, inAddr := a2, inPort := q2\<rparr>"
  from h have nd: "\<forall>e \<in> set es2. \<not> delivers e" and np2: "ParsePacket \<notin> set es2"
    by auto
  from udp_run_reception [OF nd, of ?v2] np2 obtain w where
    w: "udp_run es2 ?v2 = Some w" "inAddr w = a2" "inPort w = q2" "inPacket w = ?P2"
    by auto
  have run: "udp_run ?rest u = Some w"
    using v w(1) by (simp add: udp_run_append recvFunc_def)
  have parse: "fst (parsePacket w) = int (length ?P2)
             \<and> packet (snd (parsePacket w)) = ?P2
             \<and> inPacket (snd (parsePacket w)) = []
             \<and> available (snd (parsePacket w)) = int (length ?P2)
             \<and> fst (snd (read_buf n (snd (parsePacket w)))) = take n ?P2
             \<and> remoteIP (snd (parsePacket w)) = a2
             \<and> remotePort (snd (parsePacket w)) = q2"
    if "pcb w \<noteq> None"
    using that w(2,3,4)
    by (auto simp: parsePacket_def available_def isAvailable_def read_buf_def remoteIP_def
          remotePort_def Let_def min_def)
  have null: "pcb w = None \<longrightarrow> parsePacket w = (0, w)"
    by (simp add: parsePacket_def)
  have staged: "inPacket w = ?P2 \<and> remoteIP w = a2 \<and> remotePort w = q2"
    using w(2,3,4) by (simp add: remoteIP_def remotePort_def)
  from same run parse null staged
  show "\<exists>w. udp_run (RecvFunc (Some c1) (Some p1) a1 q1 # ?rest) u = Some w
        \<and> udp_run ?rest u = Some w
        \<and> inPacket w = ?P2
        \<and> remoteIP w = a2 \<and> remotePort w = q2
        \<and> (pcb w = None \<longrightarrow> parsePacket w = (0, w))
        \<and> (pcb w \<noteq> None \<longrightarrow>
             fst (parsePacket w) = int (length ?P2)
             \<and> packet (snd (parsePacket w)) = ?P2
             \<and> inPacket (snd (parsePacket w)) = []
             \<and> available (snd (parsePacket w)) = int (length ?P2)
             \<and> fst (snd (read_buf n (snd (parsePacket w)))) = take n ?P2
             \<and> remoteIP (snd (parsePacket w)) = a2
             \<and> remotePort (snd (parsePacket w)) = q2)"
    by auto
qed

theorem latest_wins_witness:
  "\<exists>w. udp_run [RecvFunc (Some 1) (Some (Pbuf [1, 2] 2 None)) 0x0A000005 9000,
                Available,
                RecvFunc (Some 1) (Some (Pbuf [3] 1 (Some (Pbuf [4, 5] 2 None)))) 0x0A000006 9001,
                RemoteIP]
          udp_two_bytes = Some w
      \<and> udp_run [Available,
                RecvFunc (Some 1) (Some (Pbuf [3] 1 (Some (Pbuf [4, 5] 2 None)))) 0x0A000006 9001,
                RemoteIP]
          udp_two_bytes = Some w
      \<and> pcb w \<noteq> None
      \<and> fst (parsePacket w) = 3
      \<and> packet (snd (parsePacket w)) = [3, 4, 5]
      \<and> fst (snd (read_buf 5 (snd (parsePacket w)))) = [3, 4, 5]
      \<and> remoteIP (snd (parsePacket w)) = 0x0A000006
      \<and> remotePort (snd (parsePacket w)) = 9001"
proof -
  have h: "(\<forall>e \<in> set [Available]. e \<noteq> ParsePacket)
           \<and> (\<forall>e \<in> set [RemoteIP]. e \<noteq> ParsePacket \<and> \<not> delivers e)"
    by simp
  have c: "copy_chain (Some (Pbuf [3] 1 (Some (Pbuf [4, 5] 2 None)))) [] = [3, 4, 5]"
    by simp
  from latest_wins [of "[Available]" "[RemoteIP]" 1 "Pbuf [1, 2] 2 None" "0x0A000005" 9000
      1 "Pbuf [3] 1 (Some (Pbuf [4, 5] 2 None))" "0x0A000006" 9001 udp_two_bytes 5] h
  obtain w where
    w: "udp_run (RecvFunc (Some 1) (Some (Pbuf [1, 2] 2 None)) 0x0A000005 9000
                 # [Available]
                 @ RecvFunc (Some 1) (Some (Pbuf [3] 1 (Some (Pbuf [4, 5] 2 None)))) 0x0A000006 9001
                 # [RemoteIP])
          udp_two_bytes = Some w"
       "udp_run ([Available]
                 @ RecvFunc (Some 1) (Some (Pbuf [3] 1 (Some (Pbuf [4, 5] 2 None)))) 0x0A000006 9001
                 # [RemoteIP])
          udp_two_bytes = Some w"
       "pcb w \<noteq> None \<longrightarrow>
             fst (parsePacket w)
               = int (length (copy_chain (Some (Pbuf [3] 1 (Some (Pbuf [4, 5] 2 None)))) []))
             \<and> packet (snd (parsePacket w))
               = copy_chain (Some (Pbuf [3] 1 (Some (Pbuf [4, 5] 2 None)))) []
             \<and> inPacket (snd (parsePacket w)) = []
             \<and> available (snd (parsePacket w))
               = int (length (copy_chain (Some (Pbuf [3] 1 (Some (Pbuf [4, 5] 2 None)))) []))
             \<and> fst (snd (read_buf 5 (snd (parsePacket w))))
               = take 5 (copy_chain (Some (Pbuf [3] 1 (Some (Pbuf [4, 5] 2 None)))) [])
             \<and> remoteIP (snd (parsePacket w)) = 0x0A000006
             \<and> remotePort (snd (parsePacket w)) = 9001"
    by blast
  have p: "pcb w \<noteq> None"
    using w(2) by (auto simp: recvFunc_def udp_two_bytes_def EthernetUDP_new_def)
  from w p show ?thesis
    by (simp add: c)
qed

subsection \<open>The bounded wait for the resolver\<close>

lemma overrun_Suc:
  "overrun script (Suc k)
     = (case script of [] \<Rightarrow> 0 | tk # _ \<Rightarrow> fst tk) + overrun (tl script) k"
  by (cases script) (simp_all add: overrun_def)

lemma overrun_one:
  "overrun script (Suc 0) = (case script of [] \<Rightarrow> 0 | tk # _ \<Rightarrow> fst tk)"
  by (cases script) (simp_all add: overrun_def)

lemma delay_time:
  "delay ms script (t, u) = (t1, u1) \<Longrightarrow>
     t1 = t + ms + (case script of [] \<Rightarrow> 0 | tk # _ \<Rightarrow> fst tk)"
  by (auto simp: delay_def split: list.splits prod.splits)

lemma delay_found:
  "delay ms script (t, u) = (t1, u1) \<Longrightarrow> lookupFound u \<or> lookupIP u = INADDR_NONE \<Longrightarrow>
     lookupFound u1 \<or> lookupIP u1 = INADDR_NONE"
  by (auto simp: delay_def dnsFoundFunc_def split: list.splits option.splits if_splits)

lemma delay_not_accepted:
  "delay ms script (t, u) = (t1, u1) \<Longrightarrow> \<forall>tk \<in> set script. \<not> accepts (lookupHost u) tk \<Longrightarrow>
     u1 = u"
  by (auto simp: delay_def dnsFoundFunc_def split: list.splits option.splits if_splits)

lemma dns_wait_bounds:
  "dns_wait script n t u = (n1, t1, u1) \<Longrightarrow>
     n < n1 \<and> (n1 = n + 1 \<or> t + 10 * (n1 - n) < 2010)
     \<and> t1 = t + 10 * (n1 - n) + overrun script (n1 - n)
     \<and> (lookupIP u1 \<noteq> INADDR_NONE \<or> 2000 \<le> t1)
     \<and> (lookupFound u \<or> lookupIP u = INADDR_NONE
          \<longrightarrow> lookupFound u1 \<or> lookupIP u1 = INADDR_NONE)
     \<and> ((\<forall>tk \<in> set script. \<not> accepts (lookupHost u) tk) \<longrightarrow> u1 = u)"
proof (induction script n t u rule: dns_wait.induct)
  case (1 script sleeps timer u)
  obtain t2 u2 where d: "delay 10 script (timer, u) = (t2, u2)"
    by (cases "delay 10 script (timer, u)")
  note tm = delay_time [OF d]
  have L: "dns_wait script sleeps timer u
             = (if lookupIP u2 = INADDR_NONE \<and> t2 < 2000
                then dns_wait (tl script) (sleeps + 1) t2 u2 else (sleeps + 1, t2, u2))"
    using d by (simp add: dns_wait.simps [of script sleeps timer u])
  have host: "lookupHost u2 = lookupHost u"
    using delay_lookup_only [OF d, THEN arg_cong [where f = lookupHost]] by simp
  have tl: "\<forall>tk \<in> set (tl script). \<not> accepts h tk" if "\<forall>tk \<in> set script. \<not> accepts h tk" for h
    using that by (cases script) simp_all
  show ?case
  proof (cases "lookupIP u2 = INADDR_NONE \<and> t2 < 2000")
    case True
    with L "1.prems" have r: "dns_wait (tl script) (sleeps + 1) t2 u2 = (n1, t1, u1)"
      by simp
    note ih = "1.IH" [OF d [symmetric] True r]
    from ih have i1: "sleeps + 1 < n1" by blast
    from ih have i2: "n1 = sleeps + 1 + 1 \<or> t2 + 10 * (n1 - (sleeps + 1)) < 2010" by blast
    from ih have i3: "t1 = t2 + 10 * (n1 - (sleeps + 1)) + overrun (tl script) (n1 - (sleeps + 1))"
      by blast
    from ih have e: "lookupIP u1 \<noteq> INADDR_NONE \<or> 2000 \<le> t1" by blast
    from ih have i5: "lookupFound u2 \<or> lookupIP u2 = INADDR_NONE
          \<longrightarrow> lookupFound u1 \<or> lookupIP u1 = INADDR_NONE" by blast
    from ih have i6: "(\<forall>tk \<in> set (tl script). \<not> accepts (lookupHost u2) tk) \<longrightarrow> u1 = u2"
      by blast
    from i1 have k: "n1 - sleeps = Suc (n1 - (sleeps + 1))"
      by arith
    from True have t2: "t2 < 2000" by simp
    have t2': "timer + 10 \<le> t2" using tm by simp
    have a: "sleeps < n1" using i1 by arith
    have b: "n1 = sleeps + 1 \<or> timer + 10 * (n1 - sleeps) < 2010"
      using i1 i2 t2 t2' by arith
    have c: "t1 = timer + 10 * (n1 - sleeps) + overrun script (n1 - sleeps)"
      using i3 tm by (simp add: k overrun_Suc)
    have f: "lookupFound u \<or> lookupIP u = INADDR_NONE
          \<longrightarrow> lookupFound u1 \<or> lookupIP u1 = INADDR_NONE"
      using i5 delay_found [OF d] by blast
    have g: "(\<forall>tk \<in> set script. \<not> accepts (lookupHost u) tk) \<longrightarrow> u1 = u"
    proof
      assume na: "\<forall>tk \<in> set script. \<not> accepts (lookupHost u) tk"
      then have "u2 = u" by (rule delay_not_accepted [OF d])
      moreover from na have "\<forall>tk \<in> set (tl script). \<not> accepts (lookupHost u) tk" by (rule tl)
      ultimately show "u1 = u" using i6 by simp
    qed
    from a b c e f g show ?thesis by blast
  next
    case False
    with L "1.prems" have r: "n1 = sleeps + 1" "t1 = t2" "u1 = u2"
      by simp_all
    have c: "t1 = timer + 10 * (n1 - sleeps) + overrun script (n1 - sleeps)"
      using r tm by (simp add: overrun_one)
    have e: "lookupIP u1 \<noteq> INADDR_NONE \<or> 2000 \<le> t1"
      using r False by auto
    have f: "lookupFound u \<or> lookupIP u = INADDR_NONE
          \<longrightarrow> lookupFound u1 \<or> lookupIP u1 = INADDR_NONE"
      using r delay_found [OF d] by blast
    have g: "(\<forall>tk \<in> set script. \<not> accepts (lookupHost u) tk) \<longrightarrow> u1 = u"
      using r delay_not_accepted [OF d] by blast
    from r c e f g show ?thesis by simp
  qed
qed

lemma overrun_exact:
  "\<forall>tk \<in> set script. fst tk = 0 \<Longrightarrow> overrun script k = 0"
  by (auto simp: overrun_def dest: in_set_takeD)

text \<open>
  The loop leaves at the first pass after which an address is recorded or the timer has
  reached 2000: after every earlier pass neither was the case.
\<close>

lemma after_delays_time:
  "fst (after_delays k script (t, u)) = t + 10 * k + overrun script k"
proof (induction k arbitrary: script t u)
  case 0
  then show ?case by (simp add: overrun_def)
next
  case (Suc k)
  obtain t2 u2 where d: "delay 10 script (t, u) = (t2, u2)"
    by (cases "delay 10 script (t, u)")
  from delay_time [OF d] Suc.IH [of "tl script" t2 u2] d show ?case
    by (simp add: overrun_Suc)
qed

lemma dns_wait_least:
  "dns_wait script n t u = (n1, t1, u1) \<Longrightarrow>
     n < n1
     \<and> after_delays (n1 - n) script (t, u) = (t1, u1)
     \<and> (lookupIP u1 \<noteq> INADDR_NONE \<or> 2000 \<le> t1)
     \<and> (\<forall>k. 1 \<le> k \<and> k < n1 - n \<longrightarrow>
           lookupIP (snd (after_delays k script (t, u))) = INADDR_NONE
           \<and> fst (after_delays k script (t, u)) < 2000)"
proof (induction script n t u rule: dns_wait.induct)
  case (1 script sleeps timer u)
  obtain t2 u2 where d: "delay 10 script (timer, u) = (t2, u2)"
    by (cases "delay 10 script (timer, u)")
  have L: "dns_wait script sleeps timer u
             = (if lookupIP u2 = INADDR_NONE \<and> t2 < 2000
                then dns_wait (tl script) (sleeps + 1) t2 u2 else (sleeps + 1, t2, u2))"
    using d by (simp add: dns_wait.simps [of script sleeps timer u])
  have step: "after_delays (Suc m) script (timer, u) = after_delays m (tl script) (t2, u2)" for m
    using d by simp
  show ?case
  proof (cases "lookupIP u2 = INADDR_NONE \<and> t2 < 2000")
    case True
    with L "1.prems" have r: "dns_wait (tl script) (sleeps + 1) t2 u2 = (n1, t1, u1)"
      by simp
    note ih = "1.IH" [OF d [symmetric] True r]
    from ih have i1: "sleeps + 1 < n1" by blast
    from ih have i2: "after_delays (n1 - (sleeps + 1)) (tl script) (t2, u2) = (t1, u1)" by blast
    from ih have i3: "lookupIP u1 \<noteq> INADDR_NONE \<or> 2000 \<le> t1" by blast
    from ih have i4: "\<forall>k. 1 \<le> k \<and> k < n1 - (sleeps + 1) \<longrightarrow>
           lookupIP (snd (after_delays k (tl script) (t2, u2))) = INADDR_NONE
           \<and> fst (after_delays k (tl script) (t2, u2)) < 2000" by blast
    from i1 have k: "n1 - sleeps = Suc (n1 - (sleeps + 1))"
      by arith
    have a: "sleeps < n1" using i1 by arith
    have b: "after_delays (n1 - sleeps) script (timer, u) = (t1, u1)"
      using i2 by (simp only: k step)
    have c: "lookupIP (snd (after_delays j script (timer, u))) = INADDR_NONE
           \<and> fst (after_delays j script (timer, u)) < 2000"
      if j: "1 \<le> j \<and> j < n1 - sleeps" for j
    proof (cases j)
      case 0
      with j show ?thesis by simp
    next
      case (Suc m)
      show ?thesis
      proof (cases "m = 0")
        case True
        with Suc \<open>lookupIP u2 = INADDR_NONE \<and> t2 < 2000\<close> d show ?thesis by simp
      next
        case False
        with j Suc k have "1 \<le> m \<and> m < n1 - (sleeps + 1)" by arith
        with i4 have "lookupIP (snd (after_delays m (tl script) (t2, u2))) = INADDR_NONE
           \<and> fst (after_delays m (tl script) (t2, u2)) < 2000" by blast
        then show ?thesis by (simp only: Suc step)
      qed
    qed
    from a b i3 c show ?thesis by blast
  next
    case False
    with L "1.prems" have r: "n1 = sleeps + 1" "t1 = t2" "u1 = u2"
      by simp_all
    have b: "after_delays (n1 - sleeps) script (timer, u) = (t1, u1)"
      using r d by simp
    have e: "lookupIP u1 \<noteq> INADDR_NONE \<or> 2000 \<le> t1"
      using r False by auto
    from r b e show ?thesis by simp
  qed
qed

lemma beginPacket_lookupFound:
  "lookupFound (snd (beginPacket new ip prt u)) = lookupFound u"
  by (simp add: beginPacket_def Let_def)

text \<open>
  C6. \<^verbatim>\<open>beginPacket(host, port)\<close> always returns (the wait loop is a total function:
  each pass adds at least 10 ms to a timer bounded by 2000). When the resolver answers
  \<^verbatim>\<open>ERR_OK\<close> the result is that of \<^verbatim>\<open>beginPacket(addr, port)\<close> with no call of
  \<^verbatim>\<open>delay\<close>. When it answers \<^verbatim>\<open>ERR_INPROGRESS\<close> the loop makes between 1 and 200
  calls of \<^verbatim>\<open>delay(10)\<close>, and the time spent is 10 ms for each plus what the calls
  overran. It leaves at the first pass after which an address is recorded or the timer
  has reached 2000 ms: the result is the state after exactly that many passes, one of
  the two holds there, and after every earlier pass no address was recorded and the
  timer was below 2000. The call then returns what \<^verbatim>\<open>beginPacket(lookupIP_, port)\<close>
  returns if a result was recorded, and false otherwise; in that case at least 2000 ms
  have passed. If \<^verbatim>\<open>delay\<close> is exact and no callback publishes a result, that is
  after exactly 200 calls and 2000 ms. Any other answer of the resolver returns false
  without waiting.
\<close>

theorem hostname_lookup_bounded:
  "(dns = ERR_OK \<longrightarrow>
      beginPacket_host dns addr script new host prt u
        = (fst (beginPacket new addr prt
                  (u\<lparr>lookupHost := host, lookupIP := INADDR_NONE, lookupFound := False\<rparr>)),
           (0, 0),
           snd (beginPacket new addr prt
                  (u\<lparr>lookupHost := host, lookupIP := INADDR_NONE, lookupFound := False\<rparr>))))
   \<and> (dns = ERR_INPROGRESS \<longrightarrow>
      (case beginPacket_host dns addr script new host prt u of
         (r, (sleeps, elapsed), u2) \<Rightarrow>
           1 \<le> sleeps \<and> sleeps \<le> 200
           \<and> elapsed = 10 * sleeps + overrun script sleeps
           \<and> (\<not> lookupFound u2 \<longrightarrow> \<not> r \<and> 2000 \<le> elapsed)
           \<and> ((\<forall>tk \<in> set script. \<not> accepts host tk) \<longrightarrow> \<not> lookupFound u2)
           \<and> ((\<forall>tk \<in> set script. fst tk = 0 \<and> \<not> accepts host tk) \<longrightarrow>
                sleeps = 200 \<and> elapsed = 2000)
           \<and> (case after_delays sleeps script (0, (u\<lparr>lookupHost := host, lookupIP := INADDR_NONE, lookupFound := False\<rparr>)) of
                (t1, u1) \<Rightarrow>
                  elapsed = t1
                  \<and> (lookupIP u1 \<noteq> INADDR_NONE \<or> 2000 \<le> t1)
                  \<and> (r, u2) = (if lookupFound u1 then beginPacket new (lookupIP u1) prt u1
                                else (False, u1)))
           \<and> (\<forall>k. 1 \<le> k \<and> k < sleeps \<longrightarrow>
                lookupIP (snd (after_delays k script (0, (u\<lparr>lookupHost := host, lookupIP := INADDR_NONE, lookupFound := False\<rparr>)))) = INADDR_NONE
                \<and> 10 * k + overrun script k < 2000)))
   \<and> (dns \<noteq> ERR_OK \<and> dns \<noteq> ERR_INPROGRESS \<longrightarrow>
      beginPacket_host dns addr script new host prt u
        = (False, (0, 0),
           u\<lparr>lookupHost := host, lookupIP := INADDR_NONE, lookupFound := False\<rparr>))"
proof -
  let ?u0 = "u\<lparr>lookupHost := host, lookupIP := INADDR_NONE, lookupFound := False\<rparr>"
  have ok: "beginPacket_host ERR_OK addr script new host prt u
        = (fst (beginPacket new addr prt ?u0), (0, 0), snd (beginPacket new addr prt ?u0))"
    by (simp add: beginPacket_host_def Let_def split: prod.splits)
  have other: "beginPacket_host dns addr script new host prt u = (False, (0, 0), ?u0)"
    if "dns \<noteq> ERR_OK \<and> dns \<noteq> ERR_INPROGRESS"
    using that by (cases dns) (simp_all add: beginPacket_host_def Let_def)
  obtain n1 t1 u1 where d: "dns_wait script 0 0 ?u0 = (n1, t1, u1)"
    using prod_cases3 by blast
  note b = dns_wait_bounds [OF d]
  from b have n0: "0 < n1" by blast
  from b have n2: "n1 = 0 + 1 \<or> 0 + 10 * (n1 - 0) < 2010" by blast
  from b have tt: "t1 = 0 + 10 * (n1 - 0) + overrun script (n1 - 0)" by blast
  from b have ex: "lookupIP u1 \<noteq> INADDR_NONE \<or> 2000 \<le> t1" by blast
  from b have fd: "lookupFound u1 \<or> lookupIP u1 = INADDR_NONE" by simp
  from b have na: "(\<forall>tk \<in> set script. \<not> accepts host tk) \<longrightarrow> u1 = ?u0" by simp
  note l = dns_wait_least [OF d]
  from l have ad: "after_delays n1 script (0, ?u0) = (t1, u1)" by simp
  from l have mn: "\<forall>k. 1 \<le> k \<and> k < n1 \<longrightarrow>
                lookupIP (snd (after_delays k script (0, ?u0))) = INADDR_NONE
                \<and> 10 * k + overrun script k < 2000"
    by (simp add: after_delays_time)
  have s1: "1 \<le> n1 \<and> n1 \<le> 200"
    using n0 n2 by arith
  have s2: "t1 = 10 * n1 + overrun script n1"
    using tt by simp
  have s3: "\<not> lookupFound u1 \<longrightarrow> 2000 \<le> t1"
    using ex fd by blast
  have s4: "(\<forall>tk \<in> set script. \<not> accepts host tk) \<longrightarrow> \<not> lookupFound u1"
  proof
    assume "\<forall>tk \<in> set script. \<not> accepts host tk"
    with na have "u1 = ?u0" by blast
    then show "\<not> lookupFound u1" by simp
  qed
  have s5: "(\<forall>tk \<in> set script. fst tk = 0 \<and> \<not> accepts host tk) \<longrightarrow> n1 = 200 \<and> t1 = 2000"
  proof
    assume h: "\<forall>tk \<in> set script. fst tk = 0 \<and> \<not> accepts host tk"
    then have "overrun script n1 = 0" by (simp add: overrun_exact)
    with s2 have e: "t1 = 10 * n1" by simp
    from h s4 s3 have "2000 \<le> t1" by blast
    with e s1 show "n1 = 200 \<and> t1 = 2000" by arith
  qed
  have prog: "case beginPacket_host ERR_INPROGRESS addr script new host prt u of
         (r, (sleeps, elapsed), u2) \<Rightarrow>
           1 \<le> sleeps \<and> sleeps \<le> 200
           \<and> elapsed = 10 * sleeps + overrun script sleeps
           \<and> (\<not> lookupFound u2 \<longrightarrow> \<not> r \<and> 2000 \<le> elapsed)
           \<and> ((\<forall>tk \<in> set script. \<not> accepts host tk) \<longrightarrow> \<not> lookupFound u2)
           \<and> ((\<forall>tk \<in> set script. fst tk = 0 \<and> \<not> accepts host tk) \<longrightarrow>
                sleeps = 200 \<and> elapsed = 2000)
           \<and> (case after_delays sleeps script (0, ?u0) of
                (t1, u1) \<Rightarrow>
                  elapsed = t1
                  \<and> (lookupIP u1 \<noteq> INADDR_NONE \<or> 2000 \<le> t1)
                  \<and> (r, u2) = (if lookupFound u1 then beginPacket new (lookupIP u1) prt u1
                                else (False, u1)))
           \<and> (\<forall>k. 1 \<le> k \<and> k < sleeps \<longrightarrow>
                lookupIP (snd (after_delays k script (0, ?u0))) = INADDR_NONE
                \<and> 10 * k + overrun script k < 2000)"
  proof (cases "lookupFound u1")
    case True
    obtain r u2 where bp: "beginPacket new (lookupIP u1) prt u1 = (r, u2)"
      by (cases "beginPacket new (lookupIP u1) prt u1")
    with beginPacket_lookupFound [of new "lookupIP u1" prt u1] True have f2: "lookupFound u2"
      by simp
    have res: "beginPacket_host ERR_INPROGRESS addr script new host prt u = (r, (n1, t1), u2)"
      using d True bp by (simp add: beginPacket_host_def Let_def)
    have s6: "case after_delays n1 script (0, ?u0) of
                (ta, ua) \<Rightarrow>
                  t1 = ta
                  \<and> (lookupIP ua \<noteq> INADDR_NONE \<or> 2000 \<le> ta)
                  \<and> (r, u2) = (if lookupFound ua then beginPacket new (lookupIP ua) prt ua
                                else (False, ua))"
      using ad ex True bp by simp
    from s1 s2 s4 s5 f2 True s6 mn show ?thesis
      unfolding res prod.case by blast
  next
    case False
    have res: "beginPacket_host ERR_INPROGRESS addr script new host prt u = (False, (n1, t1), u1)"
      using d False by (simp add: beginPacket_host_def Let_def)
    have s6: "case after_delays n1 script (0, ?u0) of
                (ta, ua) \<Rightarrow>
                  t1 = ta
                  \<and> (lookupIP ua \<noteq> INADDR_NONE \<or> 2000 \<le> ta)
                  \<and> (False, u1) = (if lookupFound ua then beginPacket new (lookupIP ua) prt ua
                                    else (False, ua))"
      using ad ex False by simp
    from s1 s2 s3 s4 s5 False s6 mn show ?thesis
      unfolding res prod.case by blast
  qed
  show ?thesis
  proof (intro conjI impI)
    assume "dns = ERR_OK"
    with ok show "beginPacket_host dns addr script new host prt u
        = (fst (beginPacket new addr prt ?u0), (0, 0), snd (beginPacket new addr prt ?u0))"
      by simp
  next
    assume "dns = ERR_INPROGRESS"
    with prog show "case beginPacket_host dns addr script new host prt u of
         (r, (sleeps, elapsed), u2) \<Rightarrow>
           1 \<le> sleeps \<and> sleeps \<le> 200
           \<and> elapsed = 10 * sleeps + overrun script sleeps
           \<and> (\<not> lookupFound u2 \<longrightarrow> \<not> r \<and> 2000 \<le> elapsed)
           \<and> ((\<forall>tk \<in> set script. \<not> accepts host tk) \<longrightarrow> \<not> lookupFound u2)
           \<and> ((\<forall>tk \<in> set script. fst tk = 0 \<and> \<not> accepts host tk) \<longrightarrow>
                sleeps = 200 \<and> elapsed = 2000)
           \<and> (case after_delays sleeps script (0, ?u0) of
                (t1, u1) \<Rightarrow>
                  elapsed = t1
                  \<and> (lookupIP u1 \<noteq> INADDR_NONE \<or> 2000 \<le> t1)
                  \<and> (r, u2) = (if lookupFound u1 then beginPacket new (lookupIP u1) prt u1
                                else (False, u1)))
           \<and> (\<forall>k. 1 \<le> k \<and> k < sleeps \<longrightarrow>
                lookupIP (snd (after_delays k script (0, ?u0))) = INADDR_NONE
                \<and> 10 * k + overrun script k < 2000)"
      by simp
  next
    assume "dns \<noteq> ERR_OK \<and> dns \<noteq> ERR_INPROGRESS"
    then show "beginPacket_host dns addr script new host prt u = (False, (0, 0), ?u0)"
      by (rule other)
  qed
qed

theorem hostname_lookup_bounded_witness:
  "fst (beginPacket_host ERR_INPROGRESS 0 [] (Some 1) ''example.org'' 9000 EthernetUDP_new) = False
   \<and> fst (snd (beginPacket_host ERR_INPROGRESS 0 [] (Some 1) ''example.org'' 9000 EthernetUDP_new))
       = (200, 2000)
   \<and> fst (beginPacket_host ERR_OK 0x0A000005 [] (Some 1) ''example.org'' 9000 EthernetUDP_new) = True
   \<and> fst (snd (beginPacket_host ERR_OK 0x0A000005 [] (Some 1) ''example.org'' 9000 EthernetUDP_new))
       = (0, 0)
   \<and> fst (beginPacket_host ERR_ARG 0 [] (Some 1) ''example.org'' 9000 EthernetUDP_new) = False
   \<and> fst (snd (beginPacket_host ERR_ARG 0 [] (Some 1) ''example.org'' 9000 EthernetUDP_new))
       = (0, 0)
   \<and> fst (beginPacket_host ERR_INPROGRESS 0 [(990, None), (990, None)] (Some 1) ''example.org'' 9000
          EthernetUDP_new) = False
   \<and> fst (snd (beginPacket_host ERR_INPROGRESS 0 [(990, None), (990, None)] (Some 1)
                 ''example.org'' 9000 EthernetUDP_new)) = (2, 2000)
   \<and> fst (beginPacket_host ERR_INPROGRESS 0
            [(0, None), (0, Some (''example.org'', Some 0x0A000005)), (0, None)] (Some 1)
            ''example.org'' 9000 EthernetUDP_new) = True
   \<and> fst (snd (beginPacket_host ERR_INPROGRESS 0
                 [(0, None), (0, Some (''example.org'', Some 0x0A000005)), (0, None)] (Some 1)
                 ''example.org'' 9000 EthernetUDP_new)) = (2, 20)"
proof -
  have h: "\<forall>tk \<in> set ([] :: tick list). fst tk = 0 \<and> \<not> accepts ''example.org'' tk"
    by simp
  have h': "\<forall>tk \<in> set ([] :: tick list). \<not> accepts ''example.org'' tk"
    by simp
  have a: "fst (beginPacket_host ERR_INPROGRESS 0 [] (Some 1) ''example.org'' 9000 EthernetUDP_new)
             = False
           \<and> fst (snd (beginPacket_host ERR_INPROGRESS 0 [] (Some 1) ''example.org'' 9000
                         EthernetUDP_new)) = (200, 2000)"
    using hostname_lookup_bounded [of ERR_INPROGRESS 0 "[]" "Some 1" "''example.org''" 9000
        EthernetUDP_new] h h'
    by (auto split: prod.splits)
  have b: "fst (beginPacket_host ERR_OK 0x0A000005 [] (Some 1) ''example.org'' 9000 EthernetUDP_new)
             = True
           \<and> fst (snd (beginPacket_host ERR_OK 0x0A000005 [] (Some 1) ''example.org'' 9000
                         EthernetUDP_new)) = (0, 0)"
    using hostname_lookup_bounded [of ERR_OK "0x0A000005" "[]" "Some 1" "''example.org''" 9000
        EthernetUDP_new]
    by (simp add: beginPacket_def EthernetUDP_new_def Let_def)
  have c: "fst (beginPacket_host ERR_ARG 0 [] (Some 1) ''example.org'' 9000 EthernetUDP_new)
             = False
           \<and> fst (snd (beginPacket_host ERR_ARG 0 [] (Some 1) ''example.org'' 9000
                         EthernetUDP_new)) = (0, 0)"
    using hostname_lookup_bounded [of ERR_ARG 0 "[]" "Some 1" "''example.org''" 9000
        EthernetUDP_new]
    by simp

  let ?u0 = "EthernetUDP_new\<lparr>lookupHost := ''example.org'', lookupIP := INADDR_NONE,
                              lookupFound := False\<rparr>"
  let ?slow = "[(990, None), (990, None)] :: tick list"
  let ?ans = "[(0, None), (0, Some (''example.org'', Some 0x0A000005)), (0, None)] :: tick list"
  have none: "INADDR_NONE \<noteq> (0x0A000005 :: ip4)"
    by (simp add: INADDR_NONE_def)
  have u0: "lookupIP ?u0 = INADDR_NONE" "\<not> lookupFound ?u0" "lookupHost ?u0 = ''example.org''"
    by simp_all
  have d1: "after_delays 1 ?slow (0, ?u0) = (1000, ?u0)"
    by (simp add: delay_def)
  have d2: "after_delays 2 ?slow (0, ?u0) = (2000, ?u0)"
    by (simp add: delay_def numeral_2_eq_2)
  have o2: "overrun ?slow 2 = 1980"
    by (simp add: overrun_def numeral_2_eq_2)
  have a1: "after_delays 1 ?ans (0, ?u0) = (10, ?u0)"
    by (simp add: delay_def)
  have a2: "after_delays 2 ?ans (0, ?u0)
              = (20, ?u0\<lparr>lookupIP := 0x0A000005, lookupFound := True\<rparr>)"
    by (simp add: delay_def dnsFoundFunc_def numeral_2_eq_2)
  have slow: "fst (beginPacket_host ERR_INPROGRESS 0 ?slow (Some 1) ''example.org'' 9000
                     EthernetUDP_new) = False
            \<and> fst (snd (beginPacket_host ERR_INPROGRESS 0 ?slow (Some 1) ''example.org'' 9000
                            EthernetUDP_new)) = (2, 2000)"
  proof -
    obtain r w u2 where res0:
      "beginPacket_host ERR_INPROGRESS 0 ?slow (Some 1) ''example.org'' 9000 EthernetUDP_new
         = (r, w, u2)"
      using prod_cases3 by blast
    obtain sleeps elapsed where w: "w = (sleeps, elapsed)"
      by (cases w)
    note res = res0 [unfolded w]
    note T = hostname_lookup_bounded [of ERR_INPROGRESS 0 ?slow "Some 1" "''example.org''" 9000
        EthernetUDP_new, THEN conjunct2, THEN conjunct1, THEN mp, OF refl, unfolded res prod.case]
    note f1 = T [THEN conjunct1]
    note f6 = T [THEN conjunct2, THEN conjunct2, THEN conjunct2, THEN conjunct2, THEN conjunct2,
        THEN conjunct2, THEN conjunct1]
    note f7 = T [THEN conjunct2, THEN conjunct2, THEN conjunct2, THEN conjunct2, THEN conjunct2,
        THEN conjunct2, THEN conjunct2]
    have le: "sleeps \<le> 2"
    proof (rule ccontr)
      assume "\<not> sleeps \<le> 2"
      then have "1 \<le> (2::nat) \<and> 2 < sleeps" by arith
      with f7 have k2: "lookupIP (snd (after_delays 2 ?slow (0, ?u0))) = INADDR_NONE
                \<and> 10 * 2 + overrun ?slow 2 < 2000"
        by blast
      from k2 o2 show False by simp
    qed
    have ne: "sleeps \<noteq> 1"
    proof
      assume s: "sleeps = 1"
      from f6 have "lookupIP (snd (after_delays 1 ?slow (0, ?u0))) \<noteq> INADDR_NONE
                    \<or> 2000 \<le> fst (after_delays 1 ?slow (0, ?u0))"
        unfolding s by (cases "after_delays 1 ?slow (0, ?u0)") simp
      then show False
        unfolding d1 by simp
    qed
    from f1 le ne have s2: "sleeps = 2" by arith
    from f6 have "elapsed = fst (after_delays 2 ?slow (0, ?u0))
                  \<and> (r, u2) = (if lookupFound (snd (after_delays 2 ?slow (0, ?u0)))
                                then beginPacket (Some 1)
                                       (lookupIP (snd (after_delays 2 ?slow (0, ?u0)))) 9000
                                       (snd (after_delays 2 ?slow (0, ?u0)))
                                else (False, snd (after_delays 2 ?slow (0, ?u0))))"
      unfolding s2 by (cases "after_delays 2 ?slow (0, ?u0)") simp
    then have "elapsed = 2000 \<and> r = False"
      unfolding d2 by (simp add: beginPacket_def EthernetUDP_new_def Let_def)
    with s2 res show ?thesis by simp
  qed
  have ans: "fst (beginPacket_host ERR_INPROGRESS 0 ?ans (Some 1) ''example.org'' 9000
                     EthernetUDP_new) = True
            \<and> fst (snd (beginPacket_host ERR_INPROGRESS 0 ?ans (Some 1) ''example.org'' 9000
                            EthernetUDP_new)) = (2, 20)"
  proof -
    obtain r w u2 where res0:
      "beginPacket_host ERR_INPROGRESS 0 ?ans (Some 1) ''example.org'' 9000 EthernetUDP_new
         = (r, w, u2)"
      using prod_cases3 by blast
    obtain sleeps elapsed where w: "w = (sleeps, elapsed)"
      by (cases w)
    note res = res0 [unfolded w]
    note T = hostname_lookup_bounded [of ERR_INPROGRESS 0 ?ans "Some 1" "''example.org''" 9000
        EthernetUDP_new, THEN conjunct2, THEN conjunct1, THEN mp, OF refl, unfolded res prod.case]
    note f1 = T [THEN conjunct1]
    note f6 = T [THEN conjunct2, THEN conjunct2, THEN conjunct2, THEN conjunct2, THEN conjunct2,
        THEN conjunct2, THEN conjunct1]
    note f7 = T [THEN conjunct2, THEN conjunct2, THEN conjunct2, THEN conjunct2, THEN conjunct2,
        THEN conjunct2, THEN conjunct2]
    have le: "sleeps \<le> 2"
    proof (rule ccontr)
      assume "\<not> sleeps \<le> 2"
      then have "1 \<le> (2::nat) \<and> 2 < sleeps" by arith
      with f7 have k2: "lookupIP (snd (after_delays 2 ?ans (0, ?u0))) = INADDR_NONE
                \<and> 10 * 2 + overrun ?ans 2 < 2000"
        by blast
      from k2 a2 none show False by simp
    qed
    have ne: "sleeps \<noteq> 1"
    proof
      assume s: "sleeps = 1"
      from f6 have "lookupIP (snd (after_delays 1 ?ans (0, ?u0))) \<noteq> INADDR_NONE
                    \<or> 2000 \<le> fst (after_delays 1 ?ans (0, ?u0))"
        unfolding s by (cases "after_delays 1 ?ans (0, ?u0)") simp
      then show False
        unfolding a1 by simp
    qed
    from f1 le ne have s2: "sleeps = 2" by arith
    from f6 have "elapsed = fst (after_delays 2 ?ans (0, ?u0))
                  \<and> (r, u2) = (if lookupFound (snd (after_delays 2 ?ans (0, ?u0)))
                                then beginPacket (Some 1)
                                       (lookupIP (snd (after_delays 2 ?ans (0, ?u0)))) 9000
                                       (snd (after_delays 2 ?ans (0, ?u0)))
                                else (False, snd (after_delays 2 ?ans (0, ?u0))))"
      unfolding s2 by (cases "after_delays 2 ?ans (0, ?u0)") simp
    then have "elapsed = 20 \<and> r = True"
      unfolding a2 by (simp add: beginPacket_def EthernetUDP_new_def Let_def)
    with s2 res show ?thesis by simp
  qed
  from a b c slow ans show ?thesis by blast
qed

end
